theory Spec2Isabelle
  imports Complex_Main "HOL-Library.Monad_Syntax" "HOL-Library.Signed_Division" "HOL-Library.Multiset"
begin

section \<open>Device memory and kernel launches\<close>

text \<open>
  The embedding follows \<^verbatim>\<open>src/kernel.cu\<close>. A device buffer is a list; an index is a C
  \<^verbatim>\<open>int\<close>, modelled as an unbounded \<open>int\<close> (no claim depends on 32-bit overflow). A read or a
  write outside the buffer is undefined behaviour in the source, and a failed device \<^verbatim>\<open>assert\<close>
  traps; both are the value \<open>None\<close> here, so every theorem that a kernel produces a result also
  says that no access left its buffer and no assertion fired.
\<close>

definition rd :: "'a list \<Rightarrow> int \<Rightarrow> 'a option" where
  "rd buf i = (if 0 \<le> i \<and> i < int (length buf) then Some (buf ! nat i) else None)"

definition wr :: "'a list \<Rightarrow> int \<Rightarrow> 'a \<Rightarrow> 'a list option" where
  "wr buf i v = (if 0 \<le> i \<and> i < int (length buf) then Some (buf[nat i := v]) else None)"

definition assert_that :: "bool \<Rightarrow> unit option" where
  "assert_that b = (if b then Some () else None)"

text \<open>
  \<open>for_each body xs s\<close> runs \<open>body\<close> for the elements of \<open>xs\<close> in turn, threading the state
  and stopping at the first failure. It is the \<^verbatim>\<open>for\<close> loops of the source, and it is a kernel
  launch: a kernel is its per-thread body, a function of the thread's global index
  \<^verbatim>\<open>threadIdx.x + blockIdx.x * blockDim.x\<close> and of the device state, and the threads of one launch
  run one after the other in a schedule, a list of thread indices.
  \<open>thread_ids N\<close> are the threads the host code launches for \<open>N\<close> elements:
  \<^verbatim>\<open>(N + blockSize - 1) / blockSize\<close> blocks of \<^verbatim>\<open>blockSize\<close> threads, here in ascending order.
\<close>

fun for_each :: "('i \<Rightarrow> 's \<Rightarrow> 's option) \<Rightarrow> 'i list \<Rightarrow> 's \<Rightarrow> 's option" where
  "for_each body [] s = Some s"
| "for_each body (t # ts) s = (case body t s of None \<Rightarrow> None | Some s' \<Rightarrow> for_each body ts s')"

definition blockSize :: int where
  "blockSize = 128"

definition fullBlocksPerGrid :: "int \<Rightarrow> int" where
  "fullBlocksPerGrid N = (N + blockSize - 1) sdiv blockSize"

definition thread_ids :: "int \<Rightarrow> int list" where
  "thread_ids N = map int [0 ..< nat (fullBlocksPerGrid N * blockSize)]"

text \<open>A schedule of a launch: every launched thread exactly once, in any order.\<close>

definition schedule_of :: "int \<Rightarrow> int list \<Rightarrow> bool" where
  "schedule_of N sched \<longleftrightarrow> distinct sched \<and> set sched = set (thread_ids N)"

section \<open>Single-precision arithmetic\<close>

text \<open>
  A \<^verbatim>\<open>float\<close> is modelled by the real number it denotes; infinities and NaN are left out.
  Comparisons of floats are exact, arithmetic is not: every kernel takes the rounded operations as
  a parameter \<open>fp\<close>, and a theorem about a kernel holds for whatever these operations are. Each
  operation of the source is one operation of \<open>fp\<close>: a product that feeds a sum is rounded before
  the sum, as the source is written (a compiler that contracts the two into a fused multiply-add
  rounds once instead). \<open>fint\<close> converts an integer to \<^verbatim>\<open>float\<close>.
\<close>

record fpu =
  fadd :: "real \<Rightarrow> real \<Rightarrow> real"
  fsub :: "real \<Rightarrow> real \<Rightarrow> real"
  fmul :: "real \<Rightarrow> real \<Rightarrow> real"
  fdiv :: "real \<Rightarrow> real \<Rightarrow> real"
  fsqrt :: "real \<Rightarrow> real"
  fint :: "int \<Rightarrow> real"

text \<open>
  IEEE 754 binary32 with round to nearest, ties to even, on its normal range (no overflow, no
  subnormal numbers): a nonzero \<open>x\<close> with \<open>2\<^sup>e \<le> |x| < 2\<^sup>e\<^sup>+\<^sup>1\<close> is rounded to a multiple of
  \<open>2\<^sup>e\<^sup>-\<^sup>2\<^sup>3\<close>. \<open>f32\<close> rounds each operation once. It is the arithmetic of the concrete runs below.
\<close>

definition round_even :: "real \<Rightarrow> int" where
  "round_even y =
     (let f = \<lfloor>y\<rfloor>
      in if y - of_int f < 1 / 2 then f
         else if y - of_int f > 1 / 2 then f + 1
         else if even f then f else f + 1)"

definition rnd32 :: "real \<Rightarrow> real" where
  "rnd32 x =
     (if x = 0 then 0
      else let u = 2 powr (of_int \<lfloor>log 2 \<bar>x\<bar>\<rfloor> - 23)
           in of_int (round_even (x / u)) * u)"

definition f32 :: fpu where
  "f32 = \<lparr>fadd = (\<lambda>a b. rnd32 (a + b)), fsub = (\<lambda>a b. rnd32 (a - b)),
           fmul = (\<lambda>a b. rnd32 (a * b)), fdiv = (\<lambda>a b. rnd32 (a / b)),
           fsqrt = (\<lambda>a. rnd32 (sqrt a)), fint = (\<lambda>i. rnd32 (of_int i))\<rparr>"


section \<open>Vectors and simulation parameters\<close>

datatype 'a tvec3 = Vec3 (vx: 'a) (vy: 'a) (vz: 'a)

type_synonym vec3 = "real tvec3"
type_synonym i32vec3 = "int tvec3"

instantiation tvec3 :: (ab_group_add) ab_group_add
begin

definition zero_tvec3 :: "'a tvec3" where
  "zero_tvec3 = Vec3 0 0 0"

definition plus_tvec3 :: "'a tvec3 \<Rightarrow> 'a tvec3 \<Rightarrow> 'a tvec3" where
  "plus_tvec3 a b = Vec3 (vx a + vx b) (vy a + vy b) (vz a + vz b)"

definition minus_tvec3 :: "'a tvec3 \<Rightarrow> 'a tvec3 \<Rightarrow> 'a tvec3" where
  "minus_tvec3 a b = Vec3 (vx a - vx b) (vy a - vy b) (vz a - vz b)"

definition uminus_tvec3 :: "'a tvec3 \<Rightarrow> 'a tvec3" where
  "uminus_tvec3 a = Vec3 (- vx a) (- vy a) (- vz a)"

instance
  by standard (simp_all add: zero_tvec3_def plus_tvec3_def minus_tvec3_def uminus_tvec3_def)

end

text \<open>
  The \<^verbatim>\<open>glm\<close> operations on \<^verbatim>\<open>vec3\<close>, each component computed with the rounded operation:
  \<^verbatim>\<open>a + b\<close>, \<^verbatim>\<open>a - b\<close>, \<^verbatim>\<open>v * s\<close> and \<^verbatim>\<open>v / s\<close> with a scalar, the conversion of an integer
  vector, \<^verbatim>\<open>dot\<close>, \<^verbatim>\<open>length\<close> and \<^verbatim>\<open>distance\<close> (which is \<^verbatim>\<open>length(p1 - p0)\<close>).
\<close>

definition vadd :: "fpu \<Rightarrow> vec3 \<Rightarrow> vec3 \<Rightarrow> vec3" where
  "vadd fp a b = Vec3 (fadd fp (vx a) (vx b)) (fadd fp (vy a) (vy b)) (fadd fp (vz a) (vz b))"

definition vsub :: "fpu \<Rightarrow> vec3 \<Rightarrow> vec3 \<Rightarrow> vec3" where
  "vsub fp a b = Vec3 (fsub fp (vx a) (vx b)) (fsub fp (vy a) (vy b)) (fsub fp (vz a) (vz b))"

definition vmul :: "fpu \<Rightarrow> vec3 \<Rightarrow> real \<Rightarrow> vec3" where
  "vmul fp v s = Vec3 (fmul fp (vx v) s) (fmul fp (vy v) s) (fmul fp (vz v) s)"

definition vdiv :: "fpu \<Rightarrow> vec3 \<Rightarrow> real \<Rightarrow> vec3" where
  "vdiv fp v s = Vec3 (fdiv fp (vx v) s) (fdiv fp (vy v) s) (fdiv fp (vz v) s)"

definition to_vec3 :: "fpu \<Rightarrow> i32vec3 \<Rightarrow> vec3" where
  "to_vec3 fp v = Vec3 (fint fp (vx v)) (fint fp (vy v)) (fint fp (vz v))"

definition dot3 :: "fpu \<Rightarrow> vec3 \<Rightarrow> vec3 \<Rightarrow> real" where
  "dot3 fp a b =
     fadd fp (fadd fp (fmul fp (vx a) (vx b)) (fmul fp (vy a) (vy b))) (fmul fp (vz a) (vz b))"

definition length3 :: "fpu \<Rightarrow> vec3 \<Rightarrow> real" where
  "length3 fp v = fsqrt fp (dot3 fp v v)"

definition distance :: "fpu \<Rightarrow> vec3 \<Rightarrow> vec3 \<Rightarrow> real" where
  "distance fp p0 p1 = length3 fp (vsub fp p1 p0)"

text \<open>
  The parameters of the simulation. A literal such as \<^verbatim>\<open>0.01f\<close> denotes the float nearest to
  the decimal; 5, 3, 2 and 100 are floats themselves.
\<close>

definition rule1Distance :: real where "rule1Distance = 5"
definition rule2Distance :: real where "rule2Distance = 3"
definition rule3Distance :: real where "rule3Distance = 5"

definition rule1Scale :: real where "rule1Scale = rnd32 (1 / 100)"
definition rule2Scale :: real where "rule2Scale = rnd32 (1 / 10)"
definition rule3Scale :: real where "rule3Scale = rnd32 (1 / 10)"

definition maxSpeed :: real where "maxSpeed = 2"

definition scene_scale :: real where "scene_scale = 100"

definition cell_width_mul :: real where "cell_width_mul = 2"

section \<open>The three rules\<close>

text \<open>
  The accumulators of the rule loop. The loop body is written three times in the source, in
  \<^verbatim>\<open>computeVelocityChange\<close> and in the two grid kernels, with the same text; \<open>ruleStep\<close> is that
  body for the candidate \<open>i\<close> seen from the boid \<open>iSelf\<close>. \<open>vel[i]\<close> is only read inside
  the third test, as in the source.
\<close>

record rule_acc =
  perceived_center :: vec3
  perceived_velocity :: vec3
  rule2offset :: vec3
  neighbor_cnts0 :: nat
  neighbor_cnts1 :: nat

definition acc_init :: rule_acc where
  "acc_init = \<lparr>perceived_center = Vec3 0 0 0, perceived_velocity = Vec3 0 0 0,
               rule2offset = Vec3 0 0 0, neighbor_cnts0 = 0, neighbor_cnts1 = 0\<rparr>"

definition ruleStep ::
  "fpu \<Rightarrow> vec3 list \<Rightarrow> vec3 list \<Rightarrow> int \<Rightarrow> int \<Rightarrow> rule_acc \<Rightarrow> rule_acc option" where
  "ruleStep fp pos vel iSelf i a = do {
     p \<leftarrow> rd pos i;
     pSelf \<leftarrow> rd pos iSelf;
     let dist = distance fp p pSelf;
     let a1 = (if dist < rule1Distance
               then a\<lparr>perceived_center := vadd fp (perceived_center a) p,
                      neighbor_cnts0 := neighbor_cnts0 a + 1\<rparr>
               else a);
     let a2 = (if dist < rule2Distance
               then a1\<lparr>rule2offset := vsub fp (rule2offset a1) (vsub fp p pSelf)\<rparr>
               else a1);
     if dist < rule3Distance
     then do { v \<leftarrow> rd vel i;
               Some (a2\<lparr>perceived_velocity := vadd fp (perceived_velocity a2) v,
                         neighbor_cnts1 := neighbor_cnts1 a2 + 1\<rparr>) }
     else Some a2
   }"

text \<open>
  The code after the loop, which the source also writes three times: the averages and the three
  scales. A count is converted to \<^verbatim>\<open>float\<close> before the division. \<open>ruleTerms\<close> gives the final
  values of \<^verbatim>\<open>perceived_center\<close>, \<^verbatim>\<open>rule2offset\<close> and \<^verbatim>\<open>perceived_velocity\<close>, in this order.
\<close>

definition ruleTerms :: "fpu \<Rightarrow> vec3 \<Rightarrow> rule_acc \<Rightarrow> vec3 \<times> vec3 \<times> vec3" where
  "ruleTerms fp pSelf a =
     (let center = (if neighbor_cnts0 a \<noteq> 0
                    then vmul fp (vsub fp (vdiv fp (perceived_center a)
                                             (fint fp (int (neighbor_cnts0 a)))) pSelf) rule1Scale
                    else perceived_center a);
          velocity = (if neighbor_cnts1 a \<noteq> 0
                      then vmul fp (vdiv fp (perceived_velocity a)
                                      (fint fp (int (neighbor_cnts1 a)))) rule3Scale
                      else perceived_velocity a);
          offset = vmul fp (rule2offset a) rule2Scale
      in (center, offset, velocity))"

text \<open>
  \<^verbatim>\<open>computeVelocityChange\<close> returns
  \<^verbatim>\<open>perceived_center + rule2offset + perceived_velocity\<close>, added from left to right.
  \<^verbatim>\<open>pos[iSelf]\<close> is read after the loop only if the first count is not zero.
\<close>

definition computeVelocityChange ::
  "fpu \<Rightarrow> int \<Rightarrow> int \<Rightarrow> vec3 list \<Rightarrow> vec3 list \<Rightarrow> vec3 option" where
  "computeVelocityChange fp N iSelf pos vel = do {
     a \<leftarrow> for_each (\<lambda>i a. if i = iSelf then Some a else ruleStep fp pos vel iSelf i a)
            [0 .. N - 1] acc_init;
     pSelf \<leftarrow> (if neighbor_cnts0 a \<noteq> 0 then rd pos iSelf else Some (Vec3 0 0 0));
     let (center, offset, velocity) = ruleTerms fp pSelf a;
     Some (vadd fp (vadd fp center offset) velocity)
   }"

text \<open>The speed clamp that ends each of the three velocity kernels.\<close>

definition clampSpeed :: "fpu \<Rightarrow> vec3 \<Rightarrow> vec3" where
  "clampSpeed fp velocity =
     (let speed = length3 fp velocity
      in if speed > maxSpeed then vmul fp (vdiv fp velocity speed) maxSpeed else velocity)"

definition kernUpdateVelocityBruteForce ::
  "fpu \<Rightarrow> int \<Rightarrow> vec3 list \<Rightarrow> vec3 list \<Rightarrow> int \<Rightarrow> vec3 list \<Rightarrow> vec3 list option" where
  "kernUpdateVelocityBruteForce fp N pos vel1 index vel2 =
     (if index \<ge> N then Some vel2
      else do {
        v \<leftarrow> rd vel1 index;
        change \<leftarrow> computeVelocityChange fp N index pos vel1;
        wr vel2 index (clampSpeed fp (vadd fp v change))
      })"

section \<open>Position integration\<close>

text \<open>
  \<^verbatim>\<open>thisPos += vel[index] * dt\<close> is computed in \<^verbatim>\<open>float\<close>; the two wrap tests compare the
  computed coordinate with the two bounds \<open>-scene_scale\<close> and \<open>scene_scale\<close> and store one of
  them, all of it exact. The
  source tests the three axes against the lower bound first and then against the upper bound;
  for one axis that is \<open>wrap_axis\<close>.
\<close>

definition wrap_axis :: "real \<Rightarrow> real" where
  "wrap_axis c =
     (let c1 = (if c < - scene_scale then scene_scale else c)
      in if c1 > scene_scale then - scene_scale else c1)"

definition kernUpdatePos ::
  "fpu \<Rightarrow> int \<Rightarrow> real \<Rightarrow> vec3 list \<Rightarrow> int \<Rightarrow> vec3 list \<Rightarrow> vec3 list option" where
  "kernUpdatePos fp N dt vel index pos =
     (if index \<ge> N then Some pos
      else do {
        thisPos \<leftarrow> rd pos index;
        v \<leftarrow> rd vel index;
        let thisPos = vadd fp thisPos (vmul fp v dt);
        wr pos index (Vec3 (wrap_axis (vx thisPos)) (wrap_axis (vy thisPos)) (wrap_axis (vz thisPos)))
      })"

section \<open>The uniform grid\<close>

definition gridIndex3Dto1D :: "int \<Rightarrow> int \<Rightarrow> int \<Rightarrow> int \<Rightarrow> int" where
  "gridIndex3Dto1D x y z gridResolution =
     x + y * gridResolution + z * gridResolution * gridResolution"

text \<open>
  \<^verbatim>\<open>getGridIndex\<close>: the subtraction and the multiplication are rounded, the assertion and
  \<^verbatim>\<open>std::floor\<close> are exact. The source stores the three integers in a \<^verbatim>\<open>vec3\<close> before it
  returns them as integers again; cell coordinates are far below \<open>2\<^sup>2\<^sup>4\<close>, where that changes
  nothing.
\<close>

definition getGridIndex :: "fpu \<Rightarrow> vec3 \<Rightarrow> real \<Rightarrow> vec3 \<Rightarrow> i32vec3 option" where
  "getGridIndex fp position inverseCellWidth gridMin = do {
     let rel_pos = vmul fp (vsub fp position gridMin) inverseCellWidth;
     _ \<leftarrow> assert_that (vx rel_pos \<ge> 0 \<and> vy rel_pos \<ge> 0 \<and> vz rel_pos \<ge> 0);
     Some (Vec3 \<lfloor>vx rel_pos\<rfloor> \<lfloor>vy rel_pos\<rfloor> \<lfloor>vz rel_pos\<rfloor>)
   }"

text \<open>The state of \<^verbatim>\<open>kernComputeIndices\<close> is the pair \<open>(indices, gridIndices)\<close>.\<close>

definition kernComputeIndices ::
  "fpu \<Rightarrow> int \<Rightarrow> int \<Rightarrow> vec3 \<Rightarrow> real \<Rightarrow> vec3 list \<Rightarrow> int \<Rightarrow> int list \<times> int list
     \<Rightarrow> (int list \<times> int list) option" where
  "kernComputeIndices fp N gridResolution gridMin inverseCellWidth pos index bufs =
     (if index \<ge> N then Some bufs
      else do {
        p \<leftarrow> rd pos index;
        grid_pos \<leftarrow> getGridIndex fp p inverseCellWidth gridMin;
        indices \<leftarrow> wr (fst bufs) index index;
        gridIndices \<leftarrow> wr (snd bufs) index
           (gridIndex3Dto1D (vx grid_pos) (vy grid_pos) (vz grid_pos) gridResolution);
        cell \<leftarrow> rd gridIndices index;
        _ \<leftarrow> assert_that (cell \<ge> 0 \<and> cell < gridResolution * gridResolution * gridResolution);
        Some (indices, gridIndices)
      })"

definition kernResetIntBuffer :: "int \<Rightarrow> int \<Rightarrow> int \<Rightarrow> int list \<Rightarrow> int list option" where
  "kernResetIntBuffer N val index intBuffer =
     (if index < N then wr intBuffer index val else Some intBuffer)"

text \<open>
  The state of \<^verbatim>\<open>kernIdentifyCellStartEnd\<close> is the pair
  \<open>(gridCellStartIndices, gridCellEndIndices)\<close>. The \<^verbatim>\<open>||\<close> of the source does not read
  \<^verbatim>\<open>particleGridIndices[index - 1]\<close> at index 0 nor \<^verbatim>\<open>[index + 1]\<close> at the last index.
\<close>

definition kernIdentifyCellStartEnd ::
  "int \<Rightarrow> int list \<Rightarrow> int \<Rightarrow> int list \<times> int list \<Rightarrow> (int list \<times> int list) option" where
  "kernIdentifyCellStartEnd N particleGridIndices index bufs =
     (if index \<ge> N then Some bufs
      else do {
        isStart \<leftarrow> (if index = 0 then Some True
                    else do { prev \<leftarrow> rd particleGridIndices (index - 1);
                              cur \<leftarrow> rd particleGridIndices index;
                              Some (prev \<noteq> cur) });
        gridCellStartIndices \<leftarrow>
          (if isStart then do { cur \<leftarrow> rd particleGridIndices index; wr (fst bufs) cur index }
           else Some (fst bufs));
        isEnd \<leftarrow> (if index = N - 1 then Some True
                  else do { nxt \<leftarrow> rd particleGridIndices (index + 1);
                            cur \<leftarrow> rd particleGridIndices index;
                            Some (nxt \<noteq> cur) });
        gridCellEndIndices \<leftarrow>
          (if isEnd then do { cur \<leftarrow> rd particleGridIndices index; wr (snd bufs) cur (index + 1) }
           else Some (snd bufs));
        Some (gridCellStartIndices, gridCellEndIndices)
      })"

text \<open>
  The three launches that build the cell range table, as \<^verbatim>\<open>stepSimulationScatteredGrid\<close>,
  \<^verbatim>\<open>stepSimulationCoherentGrid\<close> and \<^verbatim>\<open>unitTest\<close> issue them: both tables reset to \<open>-1\<close>
  over \<open>M\<close> cells, then the scan over \<open>N\<close> sorted cell indices. Each launch takes its schedule.
\<close>

definition buildCellRanges ::
  "int list \<Rightarrow> int list \<Rightarrow> int list \<Rightarrow> int \<Rightarrow> int \<Rightarrow> int list \<Rightarrow> int list \<times> int list
     \<Rightarrow> (int list \<times> int list) option" where
  "buildCellRanges sched1 sched2 sched3 M N particleGridIndices bufs = do {
     gridCellStartIndices \<leftarrow> for_each (kernResetIntBuffer M (- 1)) sched1 (fst bufs);
     gridCellEndIndices \<leftarrow> for_each (kernResetIntBuffer M (- 1)) sched2 (snd bufs);
     for_each (kernIdentifyCellStartEnd N particleGridIndices) sched3
       (gridCellStartIndices, gridCellEndIndices)
   }"

text \<open>
  \<^verbatim>\<open>genNeighborCells\<close>: the eight cells of the \<^verbatim>\<open>IMPL_8\<close> search, in the order the source
  stores them (\<open>z\<close> outermost, \<open>x\<close> innermost).
\<close>

definition genNeighborCells :: "fpu \<Rightarrow> vec3 \<Rightarrow> i32vec3 \<Rightarrow> vec3 \<Rightarrow> real \<Rightarrow> i32vec3 list" where
  "genNeighborCells fp boid_pos grid_pos gridMin cellWidth =
     (let grid_center = vmul fp (to_vec3 fp grid_pos) cellWidth;
          boid_pos = vsub fp boid_pos gridMin;
          deltas0 = [0, if vx boid_pos > vx grid_center then 1 else - 1];
          deltas1 = [0, if vy boid_pos > vy grid_center then 1 else - 1];
          deltas2 = [0, if vz boid_pos > vz grid_center then 1 else - 1]
      in [grid_pos + Vec3 x y z. z \<leftarrow> deltas2, y \<leftarrow> deltas1, x \<leftarrow> deltas0])"

text \<open>The cells of the 27-cell search, in the order of the three nested loops.\<close>

definition neighborCells27 :: "i32vec3 \<Rightarrow> i32vec3 list" where
  "neighborCells27 grid_pos =
     [grid_pos + Vec3 dx dy dz. dx \<leftarrow> [- 1, 0, 1], dy \<leftarrow> [- 1, 0, 1], dz \<leftarrow> [- 1, 0, 1]]"

text \<open>
  The body of the loop over the candidate cells, for one cell \<open>npos\<close>. \<open>deref\<close> turns a slot
  \<open>j\<close> of the cell's range into a boid index: the scattered kernel reads
  \<^verbatim>\<open>particleArrayIndices[j]\<close>, the coherent kernel uses \<open>j\<close> itself.
\<close>

definition visitCell ::
  "fpu \<Rightarrow> int \<Rightarrow> int list \<Rightarrow> int list \<Rightarrow> (int \<Rightarrow> int option) \<Rightarrow> vec3 list \<Rightarrow> vec3 list \<Rightarrow> int
     \<Rightarrow> i32vec3 \<Rightarrow> rule_acc \<Rightarrow> rule_acc option" where
  "visitCell fp gridResolution gridCellStartIndices gridCellEndIndices deref pos vel1 index npos a =
     (let num_grids = gridResolution * gridResolution * gridResolution;
          grid_index = gridIndex3Dto1D (vx npos) (vy npos) (vz npos) gridResolution
      in if grid_index \<ge> 0 \<and> grid_index < num_grids
         then do {
           start \<leftarrow> rd gridCellStartIndices grid_index;
           endj \<leftarrow> rd gridCellEndIndices grid_index;
           for_each (\<lambda>j a. do { i \<leftarrow> deref j;
                                 if i \<noteq> index then ruleStep fp pos vel1 index i a else Some a })
             [start .. endj - 1] a
         }
         else Some a)"

text \<open>
  The two grid kernels. \<open>impl8\<close> says whether the file was compiled with \<^verbatim>\<open>IMPL_8\<close>; the
  flag is not set in \<^verbatim>\<open>kernel.cu\<close> itself. The two kernels have the same text up to the way a
  slot of a cell range is turned into a boid index; \<open>neighborSearch\<close> is that text. The final
  sum is \<^verbatim>\<open>vel1[index] + perceived_center + rule2offset + perceived_velocity\<close>, added from left
  to right: the old velocity comes first here, where the brute-force kernel adds it last.
\<close>

definition neighborSearch ::
  "fpu \<Rightarrow> bool \<Rightarrow> int \<Rightarrow> vec3 \<Rightarrow> real \<Rightarrow> real \<Rightarrow> int list \<Rightarrow> int list \<Rightarrow> (int \<Rightarrow> int option)
     \<Rightarrow> vec3 list \<Rightarrow> vec3 list \<Rightarrow> int \<Rightarrow> vec3 option" where
  "neighborSearch fp impl8 gridResolution gridMin inverseCellWidth cellWidth
       gridCellStartIndices gridCellEndIndices deref pos vel1 index = do {
     p \<leftarrow> rd pos index;
     grid_pos \<leftarrow> getGridIndex fp p inverseCellWidth gridMin;
     let neighbor_cells = (if impl8 then genNeighborCells fp p grid_pos gridMin cellWidth
                           else neighborCells27 grid_pos);
     a \<leftarrow> for_each (visitCell fp gridResolution gridCellStartIndices gridCellEndIndices deref
                       pos vel1 index)
            neighbor_cells acc_init;
     let (center, offset, velocity) = ruleTerms fp p a;
     v \<leftarrow> rd vel1 index;
     Some (clampSpeed fp (vadd fp (vadd fp (vadd fp v center) offset) velocity))
   }"

definition kernUpdateVelNeighborSearchScattered ::
  "fpu \<Rightarrow> bool \<Rightarrow> int \<Rightarrow> int \<Rightarrow> vec3 \<Rightarrow> real \<Rightarrow> real \<Rightarrow> int list \<Rightarrow> int list \<Rightarrow> int list
     \<Rightarrow> vec3 list \<Rightarrow> vec3 list \<Rightarrow> int \<Rightarrow> vec3 list \<Rightarrow> vec3 list option" where
  "kernUpdateVelNeighborSearchScattered fp impl8 N gridResolution gridMin inverseCellWidth cellWidth
       gridCellStartIndices gridCellEndIndices particleArrayIndices pos vel1 index vel2 =
     (if index \<ge> N then Some vel2
      else do {
        velocity \<leftarrow> neighborSearch fp impl8 gridResolution gridMin inverseCellWidth cellWidth
                      gridCellStartIndices gridCellEndIndices (rd particleArrayIndices) pos vel1 index;
        wr vel2 index velocity
      })"

definition kernUpdateVelNeighborSearchCoherent ::
  "fpu \<Rightarrow> bool \<Rightarrow> int \<Rightarrow> int \<Rightarrow> vec3 \<Rightarrow> real \<Rightarrow> real \<Rightarrow> int list \<Rightarrow> int list
     \<Rightarrow> vec3 list \<Rightarrow> vec3 list \<Rightarrow> int \<Rightarrow> vec3 list \<Rightarrow> vec3 list option" where
  "kernUpdateVelNeighborSearchCoherent fp impl8 N gridResolution gridMin inverseCellWidth cellWidth
       gridCellStartIndices gridCellEndIndices pos vel1 index vel2 =
     (if index \<ge> N then Some vel2
      else do {
        velocity \<leftarrow> neighborSearch fp impl8 gridResolution gridMin inverseCellWidth cellWidth
                      gridCellStartIndices gridCellEndIndices Some pos vel1 index;
        wr vel2 index velocity
      })"

section \<open>The coherent layout\<close>

text \<open>
  \<^verbatim>\<open>kernFillCoherentArrays\<close> gathers, \<^verbatim>\<open>kernFillOriginalArrays\<close> scatters. The state of each is
  the pair of buffers it writes; the element type is left open (the source moves \<^verbatim>\<open>glm::vec3\<close>).
\<close>

definition kernFillCoherentArrays ::
  "int \<Rightarrow> int list \<Rightarrow> 'a list \<Rightarrow> 'a list \<Rightarrow> int \<Rightarrow> 'a list \<times> 'a list \<Rightarrow> ('a list \<times> 'a list) option" where
  "kernFillCoherentArrays N particleArrayIndices pos vel index coherent =
     (if index \<ge> N then Some coherent
      else do {
        i \<leftarrow> rd particleArrayIndices index;
        p \<leftarrow> rd pos i;
        coherentPos \<leftarrow> wr (fst coherent) index p;
        i \<leftarrow> rd particleArrayIndices index;
        v \<leftarrow> rd vel i;
        coherentVel \<leftarrow> wr (snd coherent) index v;
        Some (coherentPos, coherentVel)
      })"

definition kernFillOriginalArrays ::
  "int \<Rightarrow> int list \<Rightarrow> 'a list \<Rightarrow> 'a list \<Rightarrow> int \<Rightarrow> 'a list \<times> 'a list \<Rightarrow> ('a list \<times> 'a list) option" where
  "kernFillOriginalArrays N particleArrayIndices coherentPos coherentVel index original =
     (if index \<ge> N then Some original
      else do {
        p \<leftarrow> rd coherentPos index;
        i \<leftarrow> rd particleArrayIndices index;
        pos \<leftarrow> wr (fst original) i p;
        v \<leftarrow> rd coherentVel index;
        i \<leftarrow> rd particleArrayIndices index;
        vel \<leftarrow> wr (snd original) i v;
        Some (pos, vel)
      })"

section \<open>Host state, initialisation and the three steps\<close>

text \<open>
  The globals of \<^verbatim>\<open>kernel.cu\<close>. A device pointer is modelled by the buffer it points to. Three
  fields stand for the process and the CUDA runtime: the device allocations the process holds
  (the pointer variable and the element count of each, oldest first), the runtime's last error, and
  what the process has written to \<^verbatim>\<open>stderr\<close>.
\<close>

datatype cudaError = cudaSuccess | cudaErrorMemoryAllocation | cudaErrorLaunchFailure

record globals =
  numObjects :: int
  dev_pos :: "vec3 list"
  dev_vel1 :: "vec3 list"
  dev_vel2 :: "vec3 list"
  dev_particleArrayIndices :: "int list"
  dev_particleGridIndices :: "int list"
  dev_gridCellStartIndices :: "int list"
  dev_gridCellEndIndices :: "int list"
  dev_coherentVel2 :: "vec3 list"
  dev_coherentPos :: "vec3 list"
  gridCellCount :: int
  gridSideCount :: int
  gridCellWidth :: real
  gridInverseCellWidth :: real
  gridMinimum :: vec3
  allocations :: "(string \<times> int) list"
  last_error :: cudaError
  stderr :: string

text \<open>
  What the program takes from outside \<^verbatim>\<open>kernel.cu\<close>: whether the runtime grants an allocation
  (by pointer variable and element count), the contents of fresh device memory, the value of
  \<^verbatim>\<open>generateRandomVec3\<close> (drawn from thrust's random engine) and \<^verbatim>\<open>thrust::sort_by_key\<close>.
\<close>

record env =
  malloc_ok :: "string \<Rightarrow> int \<Rightarrow> bool"
  uninit_vec3 :: "string \<Rightarrow> nat \<Rightarrow> vec3"
  uninit_int :: "string \<Rightarrow> nat \<Rightarrow> int"
  generateRandomVec3 :: "real \<Rightarrow> int \<Rightarrow> vec3"
  sort_by_key :: "int list \<Rightarrow> int list \<Rightarrow> int list \<times> int list"

text \<open>A sort by key, to have a concrete environment.\<close>

definition insertion_sort_by_key :: "int list \<Rightarrow> int list \<Rightarrow> int list \<times> int list" where
  "insertion_sort_by_key keys vals =
     (let sorted_pairs = sort_key fst (zip keys vals) in (map fst sorted_pairs, map snd sorted_pairs))"

fun string_of_nat :: "nat \<Rightarrow> string" where
  "string_of_nat n =
     (if n < 10 then [char_of (48 + n)] else string_of_nat (n div 10) @ [char_of (48 + n mod 10)])"

definition cudaGetErrorString :: "cudaError \<Rightarrow> string" where
  "cudaGetErrorString err =
     (case err of cudaSuccess \<Rightarrow> ''no error''
      | cudaErrorMemoryAllocation \<Rightarrow> ''out of memory''
      | cudaErrorLaunchFailure \<Rightarrow> ''unspecified launch failure'')"

text \<open>
  \<^verbatim>\<open>checkCUDAError\<close>: \<open>Inl\<close> is the process after \<^verbatim>\<open>exit(EXIT_FAILURE)\<close>, \<open>Inr\<close> the state the
  caller goes on with. \<^verbatim>\<open>cudaGetLastError\<close> resets the runtime's error.
\<close>

definition checkCUDAError :: "string \<Rightarrow> int \<Rightarrow> globals \<Rightarrow> globals + globals" where
  "checkCUDAError msg line g =
     (let err = last_error g; g = g\<lparr>last_error := cudaSuccess\<rparr>
      in if err \<noteq> cudaSuccess
         then Inl (g\<lparr>stderr := stderr g
                      @ (if line \<ge> 0 then ''Line '' @ string_of_nat (nat line) @ '': '' else [])
                      @ ''Cuda error: '' @ msg @ '': '' @ cudaGetErrorString err @ ''.'' @ [CHR 0x0A]\<rparr>)
         else Inr g)"

text \<open>
  \<^verbatim>\<open>cudaMalloc\<close> into the pointer variable \<open>name\<close>: \<open>store\<close> writes the fresh buffer into the
  global. A refused allocation leaves the pointer as it was and sets the runtime's error.
\<close>

definition cudaMalloc :: "env \<Rightarrow> string \<Rightarrow> int \<Rightarrow> (globals \<Rightarrow> globals) \<Rightarrow> globals \<Rightarrow> globals" where
  "cudaMalloc e name n store g =
     (if malloc_ok e name n
      then store (g\<lparr>allocations := allocations g @ [(name, n)]\<rparr>)
      else g\<lparr>last_error := cudaErrorMemoryAllocation\<rparr>)"

text \<open>The \<^verbatim>\<open>ALLOC\<close> macro: the error is checked only when \<^verbatim>\<open>cudaMalloc\<close> did not succeed.\<close>

definition ALLOC :: "env \<Rightarrow> string \<Rightarrow> int \<Rightarrow> int \<Rightarrow> (globals \<Rightarrow> globals) \<Rightarrow> globals \<Rightarrow> globals + globals" where
  "ALLOC e name n line store g =
     (if malloc_ok e name n then Inr (cudaMalloc e name n store g)
      else checkCUDAError (''cudaMalloc'' @ name @ ''failed!'') line (cudaMalloc e name n store g))"

definition fresh_vec3 :: "env \<Rightarrow> string \<Rightarrow> int \<Rightarrow> vec3 list" where
  "fresh_vec3 e name n = map (uninit_vec3 e name) [0 ..< nat n]"

definition fresh_int :: "env \<Rightarrow> string \<Rightarrow> int \<Rightarrow> int list" where
  "fresh_int e name n = map (uninit_int e name) [0 ..< nat n]"

definition kernGenerateRandomPosArray ::
  "env \<Rightarrow> int \<Rightarrow> int \<Rightarrow> real \<Rightarrow> int \<Rightarrow> vec3 list \<Rightarrow> vec3 list option" where
  "kernGenerateRandomPosArray e time N scale index arr =
     (if index < N
      then wr arr index (let rand = generateRandomVec3 e (real_of_int time) index
                         in Vec3 (scale * vx rand) (scale * vy rand) (scale * vz rand))
      else Some arr)"

text \<open>A sequence of host statements, each of which may end the process.\<close>

fun run_steps :: "('s \<Rightarrow> 's + 's) list \<Rightarrow> 's \<Rightarrow> 's + 's" where
  "run_steps [] s = Inr s"
| "run_steps (f # fs) s = (case f s of Inl s' \<Rightarrow> Inl s' | Inr s' \<Rightarrow> run_steps fs s')"

text \<open>
  \<^verbatim>\<open>Boids::initSimulation\<close>, in the three parts of its body: lines 163 to 179 acquire and fill
  the particle buffers, lines 182 to 191 compute the grid parameters, lines 194 to 204 acquire the
  index, cell range and coherent buffers. The numbers are the source lines that \<^verbatim>\<open>__LINE__\<close>
  expands to. A kernel that traps leaves the runtime's error set. \<^verbatim>\<open>(int)\<close> of a float truncates
  towards zero. \<^verbatim>\<open>1.0f / gridCellWidth\<close> is rounded: it is the float nearest to one tenth. The
  other operations of lines 182 to 191 are written without rounding.
\<close>

definition trunc_int :: "real \<Rightarrow> int" where
  "trunc_int r = (if r \<ge> 0 then \<lfloor>r\<rfloor> else \<lceil>r\<rceil>)"

definition initParticleBuffers :: "env \<Rightarrow> int \<Rightarrow> (globals \<Rightarrow> globals + globals) list" where
  "initParticleBuffers e N = [
     (\<lambda>g. Inr (g\<lparr>numObjects := N\<rparr>)),
     (\<lambda>g. Inr (cudaMalloc e ''dev_pos'' N (dev_pos_update (\<lambda>_. fresh_vec3 e ''dev_pos'' N)) g)),
     checkCUDAError ''cudaMalloc dev_pos failed!'' 169,
     (\<lambda>g. Inr (cudaMalloc e ''dev_vel1'' N (dev_vel1_update (\<lambda>_. fresh_vec3 e ''dev_vel1'' N)) g)),
     checkCUDAError ''cudaMalloc dev_vel1 failed!'' 172,
     (\<lambda>g. Inr (cudaMalloc e ''dev_vel2'' N (dev_vel2_update (\<lambda>_. fresh_vec3 e ''dev_vel2'' N)) g)),
     checkCUDAError ''cudaMalloc dev_vel2 failed!'' 175,
     (\<lambda>g. Inr (case for_each (kernGenerateRandomPosArray e 1 (numObjects g) scene_scale)
                        (thread_ids N) (dev_pos g) of
                  None \<Rightarrow> g\<lparr>last_error := cudaErrorLaunchFailure\<rparr>
                | Some arr \<Rightarrow> g\<lparr>dev_pos := arr\<rparr>)),
     checkCUDAError ''kernGenerateRandomPosArray failed!'' 179
   ]"

definition initGridParams :: "globals \<Rightarrow> globals" where
  "initGridParams g =
     (let cellWidth = cell_width_mul * max (max rule1Distance rule2Distance) rule3Distance;
          halfSideCount = trunc_int (scene_scale / cellWidth) + 1;
          sideCount = 2 * halfSideCount;
          halfGridWidth = cellWidth * real_of_int halfSideCount
      in g\<lparr>gridCellWidth := cellWidth,
            gridSideCount := sideCount,
            gridCellCount := sideCount * sideCount * sideCount,
            gridInverseCellWidth := rnd32 (1 / cellWidth),
            gridMinimum := Vec3 (vx (gridMinimum g) - halfGridWidth)
                                (vy (gridMinimum g) - halfGridWidth)
                                (vz (gridMinimum g) - halfGridWidth)\<rparr>)"

definition initGridBuffers :: "env \<Rightarrow> int \<Rightarrow> (globals \<Rightarrow> globals + globals) list" where
  "initGridBuffers e N = [
     (\<lambda>g. ALLOC e ''dev_particleArrayIndices'' N 194
             (dev_particleArrayIndices_update (\<lambda>_. fresh_int e ''dev_particleArrayIndices'' N)) g),
     (\<lambda>g. ALLOC e ''dev_particleGridIndices'' N 195
             (dev_particleGridIndices_update (\<lambda>_. fresh_int e ''dev_particleGridIndices'' N)) g),
     (\<lambda>g. ALLOC e ''dev_gridCellStartIndices'' (gridCellCount g) 196
             (dev_gridCellStartIndices_update
                (\<lambda>_. fresh_int e ''dev_gridCellStartIndices'' (gridCellCount g))) g),
     (\<lambda>g. ALLOC e ''dev_gridCellEndIndices'' (gridCellCount g) 197
             (dev_gridCellEndIndices_update
                (\<lambda>_. fresh_int e ''dev_gridCellEndIndices'' (gridCellCount g))) g),
     (\<lambda>g. ALLOC e ''dev_coherentPos'' N 203
             (dev_coherentPos_update (\<lambda>_. fresh_vec3 e ''dev_coherentPos'' N)) g),
     (\<lambda>g. ALLOC e ''dev_coherentVel2'' N 204
             (dev_coherentVel2_update (\<lambda>_. fresh_vec3 e ''dev_coherentVel2'' N)) g)
   ]"

definition initSimulation :: "env \<Rightarrow> int \<Rightarrow> globals \<Rightarrow> globals + globals" where
  "initSimulation e N =
     run_steps (initParticleBuffers e N @ [\<lambda>g. Inr (initGridParams g)] @ initGridBuffers e N)"

text \<open>
  The process before the first call: the globals have static storage and start zeroed, nothing
  is allocated, nothing has been printed.
\<close>

definition process_start :: globals where
  "process_start = \<lparr>numObjects = 0, dev_pos = [], dev_vel1 = [], dev_vel2 = [],
     dev_particleArrayIndices = [], dev_particleGridIndices = [],
     dev_gridCellStartIndices = [], dev_gridCellEndIndices = [],
     dev_coherentVel2 = [], dev_coherentPos = [],
     gridCellCount = 0, gridSideCount = 0, gridCellWidth = 0, gridInverseCellWidth = 0,
     gridMinimum = Vec3 0 0 0, allocations = [], last_error = cudaSuccess, stderr = []\<rparr>"

section \<open>Notions used in the statements\<close>

text \<open>
  \<open>isStart\<close> and \<open>isEnd\<close> are the two tests of \<^verbatim>\<open>kernIdentifyCellStartEnd\<close> at a position of the
  sorted cell indices; \<open>cells_ok\<close> says that every cell index addresses one of \<open>M\<close> cells.
\<close>

definition isStart :: "int list \<Rightarrow> nat \<Rightarrow> bool" where
  "isStart g i \<longleftrightarrow> i = 0 \<or> g ! (i - 1) \<noteq> g ! i"

definition isEnd :: "int list \<Rightarrow> nat \<Rightarrow> bool" where
  "isEnd g i \<longleftrightarrow> Suc i = length g \<or> g ! Suc i \<noteq> g ! i"

definition cells_ok :: "nat \<Rightarrow> int list \<Rightarrow> bool" where
  "cells_ok M g \<longleftrightarrow> (\<forall>c\<in>set g. 0 \<le> c \<and> c < int M)"

text \<open>\<open>particleArrayIndices\<close> holds a permutation of the boid indices \<open>0..n-1\<close>.\<close>

definition permutation_of :: "nat \<Rightarrow> int list \<Rightarrow> bool" where
  "permutation_of n xs \<longleftrightarrow> mset xs = mset (map int [0 ..< n])"

text \<open>What \<^verbatim>\<open>kernUpdatePos\<close> stores for one boid with position \<open>p\<close> and velocity \<open>v\<close>.\<close>

definition integrate :: "fpu \<Rightarrow> real \<Rightarrow> vec3 \<Rightarrow> vec3 \<Rightarrow> vec3" where
  "integrate fp dt p v =
     (let q = vadd fp p (vmul fp v dt) in Vec3 (wrap_axis (vx q)) (wrap_axis (vy q)) (wrap_axis (vz q)))"

text \<open>The five grid parameters of the globals.\<close>

definition grid_of :: "globals \<Rightarrow> real \<times> int \<times> int \<times> real \<times> vec3" where
  "grid_of g = (gridCellWidth g, gridSideCount g, gridCellCount g, gridInverseCellWidth g, gridMinimum g)"

text \<open>
  The nine buffers \<^verbatim>\<open>initSimulation\<close> acquires, in order, with their element counts (the cell
  range tables have \<open>22\<^sup>3 = 10648\<close> cells), and what the process prints when the runtime
  refuses each of them.
\<close>

definition init_allocations :: "int \<Rightarrow> (string \<times> int) list" where
  "init_allocations N =
     [(''dev_pos'', N), (''dev_vel1'', N), (''dev_vel2'', N),
      (''dev_particleArrayIndices'', N), (''dev_particleGridIndices'', N),
      (''dev_gridCellStartIndices'', 10648), (''dev_gridCellEndIndices'', 10648),
      (''dev_coherentPos'', N), (''dev_coherentVel2'', N)]"

definition init_failure_reports :: "string list" where
  "init_failure_reports =
     [''Line 169: Cuda error: cudaMalloc dev_pos failed!: out of memory.'' @ [CHR 0x0A],
      ''Line 172: Cuda error: cudaMalloc dev_vel1 failed!: out of memory.'' @ [CHR 0x0A],
      ''Line 175: Cuda error: cudaMalloc dev_vel2 failed!: out of memory.'' @ [CHR 0x0A],
      ''Line 194: Cuda error: cudaMallocdev_particleArrayIndicesfailed!: out of memory.'' @ [CHR 0x0A],
      ''Line 195: Cuda error: cudaMallocdev_particleGridIndicesfailed!: out of memory.'' @ [CHR 0x0A],
      ''Line 196: Cuda error: cudaMallocdev_gridCellStartIndicesfailed!: out of memory.'' @ [CHR 0x0A],
      ''Line 197: Cuda error: cudaMallocdev_gridCellEndIndicesfailed!: out of memory.'' @ [CHR 0x0A],
      ''Line 203: Cuda error: cudaMallocdev_coherentPosfailed!: out of memory.'' @ [CHR 0x0A],
      ''Line 204: Cuda error: cudaMallocdev_coherentVel2failed!: out of memory.'' @ [CHR 0x0A]]"

text \<open>A position inside the world cube \<open>[-scene_scale, scene_scale]\<^sup>3\<close>.\<close>

definition in_world :: "vec3 \<Rightarrow> bool" where
  "in_world p \<longleftrightarrow> \<bar>vx p\<bar> \<le> scene_scale \<and> \<bar>vy p\<bar> \<le> scene_scale \<and> \<bar>vz p\<bar> \<le> scene_scale"

text \<open>
  Two environments for running the host code on concrete states: a runtime that grants every
  allocation, and one that refuses the allocation into one pointer variable.
\<close>

definition env_ok :: env where
  "env_ok = \<lparr>malloc_ok = (\<lambda>name n. True), uninit_vec3 = (\<lambda>name i. Vec3 0 0 0),
     uninit_int = (\<lambda>name i. 0), generateRandomVec3 = (\<lambda>time index. Vec3 0 0 0),
     sort_by_key = insertion_sort_by_key\<rparr>"

definition env_refusing :: "string \<Rightarrow> env" where
  "env_refusing refused = env_ok\<lparr>malloc_ok := (\<lambda>name n. name \<noteq> refused)\<rparr>"


section \<open>The three rules as sums over the neighbours\<close>












section \<open>Launches\<close>

lemma for_each_append:
  "for_each body (xs @ ys) s =
     (case for_each body xs s of None \<Rightarrow> None | Some s' \<Rightarrow> for_each body ys s')"
  by (induction xs arbitrary: s) (auto split: option.splits)

lemma sdiv_nonneg: "0 \<le> a \<Longrightarrow> 0 < b \<Longrightarrow> a sdiv b = a div (b::int)"
  by (simp add: signed_divide_int_def sgn_if)

lemma fullBlocksPerGrid_nonneg: "0 \<le> N \<Longrightarrow> fullBlocksPerGrid N = (N + 127) div 128"
proof -
  assume "0 \<le> N"
  then have "(N + 128 - 1) sdiv 128 = (N + 128 - 1) div 128" by (intro sdiv_nonneg) auto
  then show ?thesis by (simp add: fullBlocksPerGrid_def blockSize_def)
qed

lemma thread_ids_cover: "0 \<le> i \<Longrightarrow> i < N \<Longrightarrow> i \<in> set (thread_ids N)"
proof -
  assume a: "0 \<le> i" "i < N"
  have "fullBlocksPerGrid N = (N + 127) div 128" using a by (intro fullBlocksPerGrid_nonneg) auto
  moreover have "N \<le> (N + 127) div 128 * 128" by presburger
  ultimately have "i < fullBlocksPerGrid N * blockSize"
    using a by (simp add: blockSize_def)
  then have "nat i < nat (fullBlocksPerGrid N * blockSize)" using a by linarith
  then have "int (nat i) \<in> set (thread_ids N)" unfolding thread_ids_def by (simp del: int_nat_eq)
  then show ?thesis using a by simp
qed

lemma thread_ids_nonneg: "i \<in> set (thread_ids N) \<Longrightarrow> 0 \<le> i"
  by (auto simp: thread_ids_def)

lemma thread_ids_distinct: "distinct (thread_ids N)"
  by (simp add: thread_ids_def distinct_map)

lemma schedule_of_thread_ids: "schedule_of N (thread_ids N)"
  by (simp add: schedule_of_def thread_ids_distinct)

lemma reset_run:
  assumes "\<forall>t\<in>set ts. 0 \<le> t" "N \<le> int (length buf)"
  shows "for_each (kernResetIntBuffer N v) ts buf =
           Some (map (\<lambda>i. if int i \<in> set ts \<and> int i < N then v else buf ! i) [0 ..< length buf])"
  using assms
proof (induction ts arbitrary: buf)
  case Nil
  then show ?case by (simp add: map_nth)
next
  case (Cons t ts)
  show ?case
  proof (cases "t < N")
    case False
    with Cons show ?thesis by (auto simp: kernResetIntBuffer_def)
  next
    case True
    with Cons.prems have r: "kernResetIntBuffer N v t buf = Some (buf[nat t := v])"
      by (auto simp: kernResetIntBuffer_def wr_def)
    have "for_each (kernResetIntBuffer N v) ts (buf[nat t := v]) =
        Some (map (\<lambda>i. if int i \<in> set ts \<and> int i < N then v else buf[nat t := v] ! i) [0 ..< length (buf[nat t := v])])"
      using Cons.prems by (intro Cons.IH) auto
    then show ?thesis using r True Cons.prems
      by (auto simp: nth_list_update)
  qed
qed

lemma reset_schedule:
  assumes "schedule_of M sched" "int (length buf) = M"
  shows "for_each (kernResetIntBuffer M v) sched buf = Some (replicate (length buf) v)"
proof -
  have nn: "\<forall>t\<in>set sched. 0 \<le> t" using assms by (auto simp: schedule_of_def thread_ids_nonneg)
  have "for_each (kernResetIntBuffer M v) sched buf =
      Some (map (\<lambda>i. if int i \<in> set sched \<and> int i < M then v else buf ! i) [0 ..< length buf])"
    using nn assms by (intro reset_run) auto
  moreover have "map (\<lambda>i. if int i \<in> set sched \<and> int i < M then v else buf ! i) [0 ..< length buf]
      = replicate (length buf) v"
    using assms by (auto intro!: nth_equalityI simp: schedule_of_def thread_ids_cover)
  ultimately show ?thesis by simp
qed

section \<open>The cell range table is right\<close>

lemma identify_thread:
  assumes "cells_ok M g" "i < length g" "length st = M" "length en = M"
  shows "kernIdentifyCellStartEnd (int (length g)) g (int i) (st, en) =
     Some (if isStart g i then st[nat (g ! i) := int i] else st,
           if isEnd g i then en[nat (g ! i) := int i + 1] else en)"
proof -
  have c: "0 \<le> g ! i" "g ! i < int M" using assms by (auto simp: cells_ok_def)
  have r0: "rd g (int i) = Some (g ! i)" using assms by (simp add: rd_def)
  have r1: "i \<noteq> 0 \<Longrightarrow> rd g (int i - 1) = Some (g ! (i - 1))"
    using assms by (auto simp: rd_def nat_diff_distrib')
  have r2: "Suc i \<noteq> length g \<Longrightarrow> rd g (int i + 1) = Some (g ! Suc i)"
    using assms by (auto simp: rd_def nat_add_distrib)
  have e: "(int i = int (length g) - 1) = (Suc i = length g)" by auto
  show ?thesis
    using assms c r0 r1 r2
    by (cases "i = 0"; cases "Suc i = length g";
        simp add: kernIdentifyCellStartEnd_def isStart_def isEnd_def wr_def e)
qed

lemma identify_thread_idle:
  "int (length g) \<le> t \<Longrightarrow> kernIdentifyCellStartEnd (int (length g)) g t bufs = Some bufs"
  by (simp add: kernIdentifyCellStartEnd_def)

lemma start_unique:
  assumes "sorted g" "i < length g" "j < length g" "isStart g i" "isStart g j" "g ! i = g ! j"
  shows "i = j"
proof -
  have aux: False if "a < b" "b < length g" "isStart g b" "g ! a = g ! b" for a b
  proof -
    have "g ! a \<le> g ! (b - 1)" using that assms(1) by (intro sorted_nth_mono) auto
    moreover have "g ! (b - 1) \<le> g ! b" using that assms(1) by (intro sorted_nth_mono) auto
    moreover have "g ! (b - 1) \<noteq> g ! b" using that by (auto simp: isStart_def)
    ultimately show False using that by simp
  qed
  show ?thesis using aux[of i j] aux[of j i] assms by (cases i j rule: linorder_cases) auto
qed

lemma end_unique:
  assumes "sorted g" "i < length g" "j < length g" "isEnd g i" "isEnd g j" "g ! i = g ! j"
  shows "i = j"
proof -
  have aux: False if "a < b" "b < length g" "isEnd g a" "g ! a = g ! b" for a b
  proof -
    have "g ! a \<le> g ! Suc a" using that assms(1) by (intro sorted_nth_mono) auto
    moreover have "g ! Suc a \<le> g ! b" using that assms(1) by (intro sorted_nth_mono) auto
    moreover have "g ! Suc a \<noteq> g ! a" using that by (auto simp: isEnd_def)
    ultimately show False using that by simp
  qed
  show ?thesis using aux[of i j] aux[of j i] assms by (cases i j rule: linorder_cases) auto
qed

text \<open>The invariant of the scan, for any list of distinct threads.\<close>

lemma identify_run:
  assumes "sorted g" "cells_ok M g" "distinct ts" "\<forall>t\<in>set ts. 0 \<le> t"
    "length st0 = M" "length en0 = M"
  shows "\<exists>st en. for_each (kernIdentifyCellStartEnd (int (length g)) g) ts (st0, en0) = Some (st, en)
      \<and> length st = M \<and> length en = M
      \<and> (\<forall>i<length g. int i \<in> set ts \<and> isStart g i \<longrightarrow> st ! nat (g ! i) = int i)
      \<and> (\<forall>i<length g. int i \<in> set ts \<and> isEnd g i \<longrightarrow> en ! nat (g ! i) = int i + 1)
      \<and> (\<forall>c<M. (\<forall>i<length g. int i \<in> set ts \<and> isStart g i \<longrightarrow> g ! i \<noteq> int c) \<longrightarrow> st ! c = st0 ! c)
      \<and> (\<forall>c<M. (\<forall>i<length g. int i \<in> set ts \<and> isEnd g i \<longrightarrow> g ! i \<noteq> int c) \<longrightarrow> en ! c = en0 ! c)"
  using assms(3-)
proof (induction ts arbitrary: st0 en0)
  case Nil
  then show ?case by simp
next
  case (Cons t ts)
  show ?case
  proof (cases "t < int (length g)")
    case False
    then have "kernIdentifyCellStartEnd (int (length g)) g t (st0, en0) = Some (st0, en0)"
      by (simp add: identify_thread_idle)
    moreover obtain st en where r: "for_each (kernIdentifyCellStartEnd (int (length g)) g) ts (st0, en0) = Some (st, en)"
      "length st = M" "length en = M"
      "\<forall>i<length g. int i \<in> set ts \<and> isStart g i \<longrightarrow> st ! nat (g ! i) = int i"
      "\<forall>i<length g. int i \<in> set ts \<and> isEnd g i \<longrightarrow> en ! nat (g ! i) = int i + 1"
      "\<forall>c<M. (\<forall>i<length g. int i \<in> set ts \<and> isStart g i \<longrightarrow> g ! i \<noteq> int c) \<longrightarrow> st ! c = st0 ! c"
      "\<forall>c<M. (\<forall>i<length g. int i \<in> set ts \<and> isEnd g i \<longrightarrow> g ! i \<noteq> int c) \<longrightarrow> en ! c = en0 ! c"
      using Cons.IH[of st0 en0] Cons.prems by auto
    ultimately show ?thesis using False by (intro exI[of _ st] exI[of _ en]) auto
  next
    case True
    define k where "k = nat t"
    have k: "t = int k" "k < length g" "int k \<notin> set ts" using True Cons.prems by (auto simp: k_def)
    define st1 where "st1 = (if isStart g k then st0[nat (g ! k) := int k] else st0)"
    define en1 where "en1 = (if isEnd g k then en0[nat (g ! k) := int k + 1] else en0)"
    have b: "kernIdentifyCellStartEnd (int (length g)) g t (st0, en0) = Some (st1, en1)"
      unfolding k(1) st1_def en1_def using assms(2) k(2) Cons.prems by (intro identify_thread) auto
    have l1: "length st1 = M" "length en1 = M" using Cons.prems by (auto simp: st1_def en1_def)
    obtain st en where r: "for_each (kernIdentifyCellStartEnd (int (length g)) g) ts (st1, en1) = Some (st, en)"
      "length st = M" "length en = M"
      and rs: "\<And>i. i < length g \<Longrightarrow> int i \<in> set ts \<Longrightarrow> isStart g i \<Longrightarrow> st ! nat (g ! i) = int i"
      and re: "\<And>i. i < length g \<Longrightarrow> int i \<in> set ts \<Longrightarrow> isEnd g i \<Longrightarrow> en ! nat (g ! i) = int i + 1"
      and ks: "\<And>c. c < M \<Longrightarrow> (\<forall>i<length g. int i \<in> set ts \<and> isStart g i \<longrightarrow> g ! i \<noteq> int c) \<Longrightarrow> st ! c = st1 ! c"
      and ke: "\<And>c. c < M \<Longrightarrow> (\<forall>i<length g. int i \<in> set ts \<and> isEnd g i \<longrightarrow> g ! i \<noteq> int c) \<Longrightarrow> en ! c = en1 ! c"
      using Cons.IH[of st1 en1] Cons.prems l1 by auto
    have cell: "0 \<le> g ! i" "nat (g ! i) < M" if "i < length g" for i
    proof -
      have "g ! i \<in> set g" using that by simp
      then have "0 \<le> g ! i \<and> g ! i < int M" using assms(2) unfolding cells_ok_def by blast
      then show "0 \<le> g ! i" "nat (g ! i) < M" by auto
    qed
    have s_head: "st ! nat (g ! k) = int k" if "isStart g k"
    proof -
      have "\<forall>i<length g. int i \<in> set ts \<and> isStart g i \<longrightarrow> g ! i \<noteq> int (nat (g ! k))"
        using start_unique[OF assms(1) _ k(2) _ that] k(3) cell(1)[OF k(2)] by auto
      then have "st ! nat (g ! k) = st1 ! nat (g ! k)" using ks cell k(2) by blast
      then show ?thesis using that cell[OF k(2)] Cons.prems by (simp add: st1_def)
    qed
    have e_head: "en ! nat (g ! k) = int k + 1" if "isEnd g k"
    proof -
      have "\<forall>i<length g. int i \<in> set ts \<and> isEnd g i \<longrightarrow> g ! i \<noteq> int (nat (g ! k))"
        using end_unique[OF assms(1) _ k(2) _ that] k(3) cell(1)[OF k(2)] by auto
      then have "en ! nat (g ! k) = en1 ! nat (g ! k)" using ke cell k(2) by blast
      then show ?thesis using that cell[OF k(2)] Cons.prems by (simp add: en1_def)
    qed
    have s_keep: "st ! c = st0 ! c"
      if "c < M" "\<forall>i<length g. int i \<in> set (t # ts) \<and> isStart g i \<longrightarrow> g ! i \<noteq> int c" for c
    proof -
      have "st ! c = st1 ! c" using that by (intro ks) auto
      moreover have "isStart g k \<Longrightarrow> nat (g ! k) \<noteq> c" using that(2) k cell[OF k(2)] by auto
      then have "st1 ! c = st0 ! c" by (auto simp: st1_def)
      ultimately show ?thesis by simp
    qed
    have e_keep: "en ! c = en0 ! c"
      if "c < M" "\<forall>i<length g. int i \<in> set (t # ts) \<and> isEnd g i \<longrightarrow> g ! i \<noteq> int c" for c
    proof -
      have "en ! c = en1 ! c" using that by (intro ke) auto
      moreover have "isEnd g k \<Longrightarrow> nat (g ! k) \<noteq> c" using that(2) k cell[OF k(2)] by auto
      then have "en1 ! c = en0 ! c" by (auto simp: en1_def)
      ultimately show ?thesis by simp
    qed
    have run: "for_each (kernIdentifyCellStartEnd (int (length g)) g) (t # ts) (st0, en0) = Some (st, en)"
      using b r(1) by simp
    have A: "\<forall>i<length g. int i \<in> set (t # ts) \<and> isStart g i \<longrightarrow> st ! nat (g ! i) = int i"
      using rs s_head k(1) by auto
    have B: "\<forall>i<length g. int i \<in> set (t # ts) \<and> isEnd g i \<longrightarrow> en ! nat (g ! i) = int i + 1"
      using re e_head k(1) by auto
    show ?thesis
      using run r(2,3) A B s_keep e_keep by blast
  qed
qed

lemma start_exists:
  assumes "c \<in> set g"
  shows "\<exists>f<length g. g ! f = c \<and> isStart g f \<and> (\<forall>j<f. g ! j \<noteq> c)"
proof -
  obtain i where i: "i < length g" "g ! i = c" using assms by (auto simp: in_set_conv_nth)
  define f where "f = (LEAST j. g ! j = c)"
  have f: "g ! f = c" unfolding f_def using i(2) by (rule LeastI)
  have fl: "f \<le> i" unfolding f_def using i(2) by (rule Least_le)
  have nb: "g ! j \<noteq> c" if "j < f" for j using that not_less_Least unfolding f_def by blast
  have "isStart g f" using nb[of "f - 1"] f by (cases "f = 0") (auto simp: isStart_def)
  then show ?thesis using f fl i nb by (intro exI[of _ f]) auto
qed

lemma end_exists:
  assumes "c \<in> set g"
  shows "\<exists>l<length g. g ! l = c \<and> isEnd g l \<and> (\<forall>j<length g. l < j \<longrightarrow> g ! j \<noteq> c)"
proof -
  obtain i where i: "i < length g" "g ! i = c" using assms by (auto simp: in_set_conv_nth)
  define l where "l = (GREATEST j. j < length g \<and> g ! j = c)"
  have "l < length g \<and> g ! l = c" unfolding l_def
    by (rule GreatestI_nat[where b = "length g"]) (use i in auto)
  then have l: "l < length g" "g ! l = c" by auto
  have nb: "g ! j \<noteq> c" if "j < length g" "l < j" for j
  proof
    assume "g ! j = c"
    then have "j \<le> l" unfolding l_def using that
      by (intro Greatest_le_nat[where b = "length g"]) auto
    then show False using that by simp
  qed
  have "isEnd g l" using nb[of "Suc l"] l by (cases "Suc l = length g") (auto simp: isEnd_def)
  then show ?thesis using l nb by (intro exI[of _ l]) auto
qed

lemma schedule_of_nonneg: "schedule_of N sched \<Longrightarrow> \<forall>t\<in>set sched. 0 \<le> t"
  by (auto simp: schedule_of_def thread_ids_nonneg)

lemma schedule_of_cover: "schedule_of (int n) sched \<Longrightarrow> i < n \<Longrightarrow> int i \<in> set sched"
  by (auto simp: schedule_of_def thread_ids_cover)

lemma cell_ranges_first_last:
  assumes "sorted g" "cells_ok M g"
    "schedule_of (int M) sched1" "schedule_of (int M) sched2" "schedule_of (int (length g)) sched3"
    "length st0 = M" "length en0 = M"
  shows "\<exists>st en. buildCellRanges sched1 sched2 sched3 (int M) (int (length g)) g (st0, en0) = Some (st, en)
      \<and> length st = M \<and> length en = M
      \<and> (\<forall>c<M. if int c \<in> set g
            then (\<exists>f l. st ! c = int f \<and> en ! c = int l + 1 \<and> f \<le> l \<and> l < length g
                     \<and> g ! f = int c \<and> g ! l = int c
                     \<and> (\<forall>j<f. g ! j \<noteq> int c) \<and> (\<forall>j<length g. l < j \<longrightarrow> g ! j \<noteq> int c))
            else st ! c = - 1 \<and> en ! c = - 1)"
proof -
  let ?r = "replicate M (- 1 :: int)"
  have r1: "for_each (kernResetIntBuffer (int M) (- 1)) sched1 st0 = Some ?r"
    using reset_schedule[OF assms(3), of st0 "- 1"] assms(6) by simp
  have r2: "for_each (kernResetIntBuffer (int M) (- 1)) sched2 en0 = Some ?r"
    using reset_schedule[OF assms(4), of en0 "- 1"] assms(7) by simp
  have d: "distinct sched3" using assms(5) by (simp add: schedule_of_def)
  obtain st en where r: "for_each (kernIdentifyCellStartEnd (int (length g)) g) sched3 (?r, ?r) = Some (st, en)"
      "length st = M" "length en = M"
      and rs: "\<And>i. i < length g \<Longrightarrow> int i \<in> set sched3 \<Longrightarrow> isStart g i \<Longrightarrow> st ! nat (g ! i) = int i"
      and re: "\<And>i. i < length g \<Longrightarrow> int i \<in> set sched3 \<Longrightarrow> isEnd g i \<Longrightarrow> en ! nat (g ! i) = int i + 1"
      and ks: "\<And>c. c < M \<Longrightarrow> (\<forall>i<length g. int i \<in> set sched3 \<and> isStart g i \<longrightarrow> g ! i \<noteq> int c) \<Longrightarrow> st ! c = ?r ! c"
      and ke: "\<And>c. c < M \<Longrightarrow> (\<forall>i<length g. int i \<in> set sched3 \<and> isEnd g i \<longrightarrow> g ! i \<noteq> int c) \<Longrightarrow> en ! c = ?r ! c"
    using identify_run[OF assms(1,2) d schedule_of_nonneg[OF assms(5)], of ?r ?r] by auto
  have run: "buildCellRanges sched1 sched2 sched3 (int M) (int (length g)) g (st0, en0) = Some (st, en)"
    using r1 r2 r(1) by (simp add: buildCellRanges_def)
  have occ: "\<exists>f l. st ! c = int f \<and> en ! c = int l + 1 \<and> f \<le> l \<and> l < length g
                     \<and> g ! f = int c \<and> g ! l = int c
                     \<and> (\<forall>j<f. g ! j \<noteq> int c) \<and> (\<forall>j<length g. l < j \<longrightarrow> g ! j \<noteq> int c)"
    if c: "c < M" "int c \<in> set g" for c
  proof -
    obtain f where f: "f < length g" "g ! f = int c" "isStart g f" "\<forall>j<f. g ! j \<noteq> int c"
      using start_exists[OF c(2)] by auto
    obtain l where l: "l < length g" "g ! l = int c" "isEnd g l" "\<forall>j<length g. l < j \<longrightarrow> g ! j \<noteq> int c"
      using end_exists[OF c(2)] by auto
    have "st ! nat (g ! f) = int f" using rs[OF f(1) schedule_of_cover[OF assms(5) f(1)] f(3)] .
    then have s: "st ! c = int f" using f(2) by simp
    have "en ! nat (g ! l) = int l + 1" using re[OF l(1) schedule_of_cover[OF assms(5) l(1)] l(3)] .
    then have e: "en ! c = int l + 1" using l(2) by simp
    have "f \<le> l" using f(4) l(1,2) by (meson not_le_imp_less)
    then show ?thesis using s e f l by blast
  qed
  have emp: "st ! c = - 1 \<and> en ! c = - 1" if "c < M" "int c \<notin> set g" for c
  proof -
    have n: "\<forall>i<length g. g ! i \<noteq> int c" using that(2) by (metis nth_mem)
    have "st ! c = ?r ! c" using n by (intro ks[OF that(1)]) auto
    moreover have "en ! c = ?r ! c" using n by (intro ke[OF that(1)]) auto
    ultimately show ?thesis using that(1) by simp
  qed
  show ?thesis using run r(2,3) occ emp by (intro exI[of _ st] exI[of _ en]) auto
qed

lemma list10: "length xs = 10 \<Longrightarrow> xs = [xs!0, xs!1, xs!2, xs!3, xs!4, xs!5, xs!6, xs!7, xs!8, xs!9]"
  by (auto simp: numeral_eq_Suc length_Suc_conv)

lemma first_last_eq:
  assumes "\<exists>f l. s = int f \<and> e = int l + 1 \<and> f \<le> l \<and> l < length g \<and> g ! f = c \<and> g ! l = c
             \<and> (\<forall>j<f. g ! j \<noteq> c) \<and> (\<forall>j<length g. l < j \<longrightarrow> g ! j \<noteq> c)"
    and "b < length g" "g ! a = c" "g ! b = c" "a \<le> b"
    and "c \<notin> set (take a g)" "c \<notin> set (drop (Suc b) g)"
  shows "s = int a \<and> e = int b + 1"
proof -
  obtain f l where fl: "s = int f" "e = int l + 1" "f \<le> l" "l < length g" "g ! f = c" "g ! l = c"
    "\<forall>j<f. g ! j \<noteq> c" "\<forall>j<length g. l < j \<longrightarrow> g ! j \<noteq> c"
    using assms(1) by blast
  have "\<not> f < a"
  proof
    assume "f < a"
    then have "g ! f \<in> set (take a g)" using assms(2,5) by (auto simp: in_set_conv_nth intro!: exI[of _ f])
    then show False using fl(5) assms(6) by simp
  qed
  moreover have "\<not> a < f" using fl(7) assms(3) by auto
  moreover have "\<not> b < l"
  proof
    assume "b < l"
    then have "g ! l \<in> set (drop (Suc b) g)"
      using fl(4) by (auto simp: in_set_conv_nth intro!: exI[of _ "l - Suc b"])
    then show False using fl(6) assms(7) by simp
  qed
  moreover have "\<not> l < b" using fl(8) assms(2,4) by auto
  ultimately show ?thesis using fl(1,2) by simp
qed

lemma unit_test_ranges:
  assumes "schedule_of 10 sched1" "schedule_of 10 sched2" "schedule_of 5 sched3"
    "length st0 = 10" "length en0 = 10"
  shows "buildCellRanges sched1 sched2 sched3 10 5 [4, 4, 5, 9, 9] (st0, en0)
     = Some ([- 1, - 1, - 1, - 1, 0, 2, - 1, - 1, - 1, 3], [- 1, - 1, - 1, - 1, 2, 3, - 1, - 1, - 1, 5])"
proof -
  let ?g = "[4, 4, 5, 9, 9] :: int list"
  have s: "sorted ?g" by simp
  have c: "cells_ok 10 ?g" by (simp add: cells_ok_def)
  have "\<exists>st en. buildCellRanges sched1 sched2 sched3 (int 10) (int (length ?g)) ?g (st0, en0) = Some (st, en)
      \<and> length st = 10 \<and> length en = 10
      \<and> (\<forall>c<10. if int c \<in> set ?g
            then (\<exists>f l. st ! c = int f \<and> en ! c = int l + 1 \<and> f \<le> l \<and> l < length ?g
                     \<and> ?g ! f = int c \<and> ?g ! l = int c
                     \<and> (\<forall>j<f. ?g ! j \<noteq> int c) \<and> (\<forall>j<length ?g. l < j \<longrightarrow> ?g ! j \<noteq> int c))
            else st ! c = - 1 \<and> en ! c = - 1)"
    by (rule cell_ranges_first_last[OF s c]) (use assms in simp_all)
  then obtain st en where r: "buildCellRanges sched1 sched2 sched3 (int 10) (int (length ?g)) ?g (st0, en0) = Some (st, en)"
    "length st = 10" "length en = 10"
    and p: "\<And>c. c < 10 \<Longrightarrow> if int c \<in> set ?g
            then (\<exists>f l. st ! c = int f \<and> en ! c = int l + 1 \<and> f \<le> l \<and> l < length ?g
                     \<and> ?g ! f = int c \<and> ?g ! l = int c
                     \<and> (\<forall>j<f. ?g ! j \<noteq> int c) \<and> (\<forall>j<length ?g. l < j \<longrightarrow> ?g ! j \<noteq> int c))
            else st ! c = - 1 \<and> en ! c = - 1"
    by blast
  have emp: "st ! c = - 1 \<and> en ! c = - 1" if "c < 10" "int c \<notin> set ?g" for c
    using p[OF that(1)] that(2) by (simp only: if_False)
  have e: "st ! 0 = -1 \<and> en ! 0 = -1" "st ! 1 = -1 \<and> en ! 1 = -1" "st ! 2 = -1 \<and> en ! 2 = -1"
    "st ! 3 = -1 \<and> en ! 3 = -1" "st ! 6 = -1 \<and> en ! 6 = -1" "st ! 7 = -1 \<and> en ! 7 = -1"
    "st ! 8 = -1 \<and> en ! 8 = -1"
    by (rule emp; simp)+
  have occ: "\<exists>f l. st ! c = int f \<and> en ! c = int l + 1 \<and> f \<le> l \<and> l < length ?g
                     \<and> ?g ! f = int c \<and> ?g ! l = int c
                     \<and> (\<forall>j<f. ?g ! j \<noteq> int c) \<and> (\<forall>j<length ?g. l < j \<longrightarrow> ?g ! j \<noteq> int c)"
    if "c < 10" "int c \<in> set ?g" for c
    using p[OF that(1)] that(2) by (simp only: if_True)
  have v4: "st ! 4 = int 0 \<and> en ! 4 = int 1 + 1"
    by (rule first_last_eq[OF occ, where a = 0 and b = 1]) (simp_all add: numeral_eq_Suc)
  have v5: "st ! 5 = int 2 \<and> en ! 5 = int 2 + 1"
    by (rule first_last_eq[OF occ, where a = 2 and b = 2]) (simp_all add: numeral_eq_Suc)
  have v9: "st ! 9 = int 3 \<and> en ! 9 = int 4 + 1"
    by (rule first_last_eq[OF occ, where a = 3 and b = 4]) (simp_all add: numeral_eq_Suc)
  have "[st!0, st!1, st!2, st!3, st!4, st!5, st!6, st!7, st!8, st!9]
      = [- 1, - 1, - 1, - 1, 0, 2, - 1, - 1, - 1, 3]"
    using e v4 v5 v9 by simp
  then have "st = [- 1, - 1, - 1, - 1, 0, 2, - 1, - 1, - 1, 3]"
    using list10[OF r(2)] by (rule back_subst[where P = "\<lambda>x. st = x", rotated])
  moreover have "[en!0, en!1, en!2, en!3, en!4, en!5, en!6, en!7, en!8, en!9]
      = [- 1, - 1, - 1, - 1, 2, 3, - 1, - 1, - 1, 5]"
    using e v4 v5 v9 by simp
  then have "en = [- 1, - 1, - 1, - 1, 2, 3, - 1, - 1, - 1, 5]"
    using list10[OF r(3)] by (rule back_subst[where P = "\<lambda>x. en = x", rotated])
  ultimately show ?thesis using r(1) by simp
qed

section \<open>Rounding to single precision\<close>

lemma round_even_of_int [simp]: "round_even (of_int m) = m"
  by (simp add: round_even_def)

lemma floor_log2_eq:
  assumes "2 powr of_int e \<le> \<bar>x\<bar>" "\<bar>x\<bar> < 2 powr (of_int e + 1)"
  shows "\<lfloor>log 2 \<bar>x\<bar>\<rfloor> = e"
proof -
  have p: "0 < \<bar>x\<bar>" using assms(1) by (smt (verit) powr_gt_zero)
  have "of_int e \<le> log 2 \<bar>x\<bar>" using assms(1) p by (simp add: le_log_iff)
  moreover have "log 2 \<bar>x\<bar> < of_int e + 1" using assms(2) p by (simp add: log_less_iff)
  ultimately show ?thesis by linarith
qed

lemma rnd32_eval:
  assumes "2 powr of_int e \<le> \<bar>x\<bar>" "\<bar>x\<bar> < 2 powr (of_int e + 1)"
  shows "rnd32 x = of_int (round_even (x / 2 powr (of_int e - 23))) * 2 powr (of_int e - 23)"
proof -
  have "x \<noteq> 0" using assms(1) by (smt (verit) powr_gt_zero)
  then show ?thesis by (simp add: rnd32_def floor_log2_eq[OF assms] Let_def)
qed

lemma rnd32_exact:
  assumes "x = of_int m * 2 powr of_int k" "2 ^ 23 \<le> \<bar>m\<bar>" "\<bar>m\<bar> < 2 ^ 24"
  shows "rnd32 x = x"
proof -
  have ax: "\<bar>x\<bar> = of_int \<bar>m\<bar> * 2 powr of_int k" using assms(1) by (simp add: abs_mult)
  have lo: "(2::real) ^ 23 \<le> of_int \<bar>m\<bar>" using assms(2) by (metis of_int_le_iff of_int_numeral of_int_power)
  have hi: "of_int \<bar>m\<bar> < (2::real) ^ 24" using assms(3) by (metis of_int_less_iff of_int_numeral of_int_power)
  have p23: "(2::real) powr (of_int (k + 23)) = 2 ^ 23 * 2 powr of_int k"
    by (simp add: powr_add)
  have p24: "(2::real) powr (of_int (k + 23) + 1) = 2 ^ 24 * 2 powr of_int k"
    by (simp add: powr_add)
  have a: "2 powr of_int (k + 23) \<le> \<bar>x\<bar>" unfolding ax p23 using lo by simp
  have b: "\<bar>x\<bar> < 2 powr (of_int (k + 23) + 1)" unfolding ax p24 using hi by simp
  have "rnd32 x = of_int (round_even (x / 2 powr (of_int (k + 23) - 23))) * 2 powr (of_int (k + 23) - 23)"
    using a b by (rule rnd32_eval)
  also have "of_int (k + 23) - (23::real) = of_int k" by simp
  finally show ?thesis using assms(1) by simp
qed

lemma rnd32_zero [simp]: "rnd32 0 = 0"
  by (simp add: rnd32_def)

lemma round_even_uminus: "round_even (- y) = - round_even y"
proof (cases "y = of_int \<lfloor>y\<rfloor>")
  case True
  then obtain n where "y = of_int n" by blast
  then show ?thesis by (simp flip: of_int_minus)
next
  case False
  then have fl: "\<lfloor>- y\<rfloor> = - \<lfloor>y\<rfloor> - 1" by (intro floor_unique) (simp; linarith)+
  have fr: "0 < y - of_int \<lfloor>y\<rfloor>" "y - of_int \<lfloor>y\<rfloor> < 1" using False by linarith+
  consider "y - of_int \<lfloor>y\<rfloor> < 1 / 2" | "y - of_int \<lfloor>y\<rfloor> > 1 / 2" | "y - of_int \<lfloor>y\<rfloor> = 1 / 2"
    by linarith
  then show ?thesis
  proof cases
    case 1
    then show ?thesis unfolding round_even_def Let_def fl by simp
  next
    case 2
    then show ?thesis unfolding round_even_def Let_def fl by simp
  next
    case 3
    then show ?thesis unfolding round_even_def Let_def fl by simp
  qed
qed

lemma rnd32_uminus: "rnd32 (- x) = - rnd32 x"
  by (simp add: rnd32_def Let_def round_even_uminus)

lemma f32_ops:
  "fadd f32 a b = rnd32 (a + b)" "fsub f32 a b = rnd32 (a - b)" "fmul f32 a b = rnd32 (a * b)"
  "fdiv f32 a b = rnd32 (a / b)" "fsqrt f32 a = rnd32 (sqrt a)" "fint f32 i = rnd32 (of_int i)"
  by (simp_all add: f32_def)

lemma rnd32_small:
  "rnd32 1 = 1" "rnd32 2 = 2" "rnd32 5 = 5" "rnd32 100 = 100" "rnd32 101 = 101"
  "rnd32 (1 / 1048576) = 1 / 1048576"
proof -
  show "rnd32 1 = 1"
    by (rule rnd32_exact[where m = 8388608 and k = "- 23"]) (simp_all add: powr_minus_divide)
  show "rnd32 2 = 2"
    by (rule rnd32_exact[where m = 8388608 and k = "- 22"]) (simp_all add: powr_minus_divide)
  show "rnd32 5 = 5"
    by (rule rnd32_exact[where m = 10485760 and k = "- 21"]) (simp_all add: powr_minus_divide)
  show "rnd32 100 = 100"
    by (rule rnd32_exact[where m = 13107200 and k = "- 17"]) (simp_all add: powr_minus_divide)
  show "rnd32 101 = 101"
    by (rule rnd32_exact[where m = 13238272 and k = "- 17"]) (simp_all add: powr_minus_divide)
  show "rnd32 (1 / 1048576) = 1 / 1048576"
    by (rule rnd32_exact[where m = 8388608 and k = "- 43"]) (simp_all add: powr_minus_divide)
qed

lemma rnd32_evalI:
  assumes "2 powr of_int e \<le> \<bar>x\<bar>" "\<bar>x\<bar> < 2 powr (of_int e + 1)"
    "of_int (round_even (x / 2 powr (of_int e - 23))) * 2 powr (of_int e - 23) = y"
  shows "rnd32 x = y"
  using rnd32_eval[OF assms(1,2)] assms(3) by simp

lemma rnd32_absorb: "rnd32 (104857601 / 1048576) = 100"
  by (rule rnd32_evalI[where e = 6]) (simp_all add: powr_minus_divide round_even_def)

lemma rnd32_tenth: "rnd32 (1 / 10) = 13421773 / 134217728"
  by (rule rnd32_evalI[where e = "- 4"]) (simp_all add: powr_minus_divide round_even_def)

lemma rnd32_320: "rnd32 320 = 320"
  by (rule rnd32_exact[where m = 10485760 and k = "- 15"]) (simp_all add: powr_minus_divide)

lemma cell_of_corner: "rnd32 (320 * rnd32 (1 / 10)) = 32"
  unfolding rnd32_tenth
  by (rule rnd32_evalI[where e = 5]) (simp_all add: powr_minus_divide round_even_def)


lemma rnd32_grid:
  "rnd32 210 = 210" "rnd32 110 = 110" "rnd32 22 = 22"
proof -
  show "rnd32 210 = 210"
    by (rule rnd32_exact[where m = 13762560 and k = "- 16"]) (simp_all add: powr_minus_divide)
  show "rnd32 110 = 110"
    by (rule rnd32_exact[where m = 14417920 and k = "- 17"]) (simp_all add: powr_minus_divide)
  show "rnd32 22 = 22"
    by (rule rnd32_exact[where m = 11534336 and k = "- 19"]) (simp_all add: powr_minus_divide)
qed

lemma cell_of_upper_face: "rnd32 (210 * rnd32 (1 / 10)) = 21"
  unfolding rnd32_tenth
  by (rule rnd32_evalI[where e = 4]) (simp_all add: powr_minus_divide round_even_def)

lemma cell_of_origin: "rnd32 (110 * rnd32 (1 / 10)) = 11"
  unfolding rnd32_tenth
  by (rule rnd32_evalI[where e = 3]) (simp_all add: powr_minus_divide round_even_def)

lemma round_even_near:
  assumes "of_int m - 1 / 2 < y" "y < of_int m + 1 / 2"
  shows "round_even y = m"
proof (cases "of_int m \<le> y")
  case True
  then have "\<lfloor>y\<rfloor> = m" using assms by (intro floor_unique) linarith+
  then show ?thesis using assms by (simp add: round_even_def)
next
  case False
  then have "\<lfloor>y\<rfloor> = m - 1" using assms by (intro floor_unique) (simp; linarith)+
  then show ?thesis using assms by (simp add: round_even_def)
qed

lemma rnd32_sqrtI:
  assumes "2 ^ 23 < m" "m < 2 ^ 24"
    "((of_int m - 1 / 2) * 2 powr of_int k) ^ 2 < d"
    "d < ((of_int m + 1 / 2) * 2 powr of_int k) ^ 2"
    "of_int m * 2 powr of_int k = y"
  shows "rnd32 (sqrt d) = y"
proof -
  define u :: real where "u = 2 powr of_int k"
  have u: "0 < u" by (simp add: u_def)
  have lo: "(2::real) ^ 23 + 1 \<le> of_int m"
  proof -
    have "(2::int) ^ 23 + 1 \<le> m" using assms(1) by simp
    then have "real_of_int (2 ^ 23 + 1) \<le> of_int m" by (rule of_int_le_iff[THEN iffD2])
    then show ?thesis by simp
  qed
  have hi: "of_int m + 1 \<le> (2::real) ^ 24"
  proof -
    have "m + 1 \<le> (2::int) ^ 24" using assms(2) by simp
    then have "real_of_int (m + 1) \<le> of_int (2 ^ 24)" by (rule of_int_le_iff[THEN iffD2])
    then show ?thesis by simp
  qed
  have a: "(of_int m - 1 / 2) * u < sqrt d"
    using assms(3) unfolding u_def by (rule real_less_rsqrt)
  have "0 \<le> (of_int m + 1 / 2) * u" using lo u by simp
  then have b: "sqrt d < (of_int m + 1 / 2) * u"
    using assms(4) unfolding u_def by (rule real_less_lsqrt)
  have pos: "0 < sqrt d"
  proof -
    have "0 < (of_int m - 1 / 2) * u" using lo u by simp
    then show ?thesis using a by linarith
  qed
  have p23: "(2::real) powr (of_int (k + 23)) = 2 ^ 23 * u"
    by (simp add: powr_add u_def)
  have p24: "(2::real) powr (of_int (k + 23) + 1) = 2 ^ 24 * u"
    by (simp add: powr_add u_def)
  have "2 ^ 23 * u \<le> (of_int m - 1 / 2) * u" using lo u by simp
  then have c: "2 powr of_int (k + 23) \<le> \<bar>sqrt d\<bar>" unfolding p23 using a pos by linarith
  have "(of_int m + 1 / 2) * u \<le> 2 ^ 24 * u" using hi u by simp
  then have e: "\<bar>sqrt d\<bar> < 2 powr (of_int (k + 23) + 1)" unfolding p24 using b pos by linarith
  have r: "rnd32 (sqrt d)
      = of_int (round_even (sqrt d / 2 powr (of_int (k + 23) - 23))) * 2 powr (of_int (k + 23) - 23)"
    using c e by (rule rnd32_eval)
  have k: "of_int (k + 23) - (23::real) = of_int k" by simp
  have "of_int m - 1 / 2 < sqrt d / u" "sqrt d / u < of_int m + 1 / 2"
    using a b u by (simp_all add: pos_less_divide_eq pos_divide_less_eq)
  then have "round_even (sqrt d / u) = m" by (rule round_even_near)
  then show ?thesis using r assms(5) unfolding k u_def by simp
qed

lemma rnd32_hundredth: "rnd32 (1 / 100) = 5368709 / 536870912"
  by (rule rnd32_evalI[where e = "- 7"]) (simp_all add: powr_minus_divide round_even_def)
section \<open>Launches in any schedule\<close>

lemma for_each_threads:
  assumes "distinct ts" "I s0" "\<And>t. t \<in> set ts \<Longrightarrow> R t s0"
    and step: "\<And>t s. t \<in> set ts \<Longrightarrow> I s \<Longrightarrow> R t s \<Longrightarrow>
        \<exists>s'. body t s = Some s' \<and> I s' \<and> Q t s' \<and> (\<forall>u. u \<noteq> t \<longrightarrow> (R u s \<longrightarrow> R u s') \<and> (Q u s \<longrightarrow> Q u s'))"
  shows "\<exists>s'. for_each body ts s0 = Some s' \<and> I s' \<and> (\<forall>t\<in>set ts. Q t s')
           \<and> (\<forall>u. u \<notin> set ts \<longrightarrow> (Q u s0 \<longrightarrow> Q u s') \<and> (R u s0 \<longrightarrow> R u s'))"
  using assms
proof (induction ts arbitrary: s0)
  case Nil
  then show ?case by simp
next
  case (Cons t ts)
  obtain s1 where s1: "body t s0 = Some s1" "I s1" "Q t s1"
      and keep: "\<And>u. u \<noteq> t \<Longrightarrow> (R u s0 \<longrightarrow> R u s1) \<and> (Q u s0 \<longrightarrow> Q u s1)"
    using Cons.prems(4)[of t s0] Cons.prems(2,3) by auto
  have d: "distinct ts" "t \<notin> set ts" using Cons.prems(1) by auto
  have r: "R u s1" if "u \<in> set ts" for u
    using keep[of u] that d Cons.prems(3)[of u] by auto
  have "\<exists>s'. for_each body ts s1 = Some s' \<and> I s' \<and> (\<forall>t\<in>set ts. Q t s')
           \<and> (\<forall>u. u \<notin> set ts \<longrightarrow> (Q u s1 \<longrightarrow> Q u s') \<and> (R u s1 \<longrightarrow> R u s'))"
  proof (rule Cons.IH[OF d(1) s1(2)])
    show "R u s1" if "u \<in> set ts" for u using r that .
    show "\<exists>s'. body u s = Some s' \<and> I s' \<and> Q u s' \<and> (\<forall>w. w \<noteq> u \<longrightarrow> (R w s \<longrightarrow> R w s') \<and> (Q w s \<longrightarrow> Q w s'))"
      if "u \<in> set ts" "I s" "R u s" for u s
      using Cons.prems(4)[of u s] that by simp
  qed
  then obtain s' where s': "for_each body ts s1 = Some s'" "I s'" "\<forall>t\<in>set ts. Q t s'"
    and keep': "\<And>u. u \<notin> set ts \<Longrightarrow> (Q u s1 \<longrightarrow> Q u s') \<and> (R u s1 \<longrightarrow> R u s')"
    by blast
  have "for_each body (t # ts) s0 = Some s'" using s1(1) s'(1) by simp
  moreover have "Q t s'" using keep'[OF d(2)] s1(3) by simp
  moreover have "(Q u s0 \<longrightarrow> Q u s') \<and> (R u s0 \<longrightarrow> R u s')" if "u \<notin> set (t # ts)" for u
    using keep[of u] keep'[of u] that by auto
  ultimately show ?case using s'(2,3) by auto
qed

lemma permutation_ofD:
  assumes "permutation_of n xs"
  shows "length xs = n" "distinct xs" "set xs = int ` {0 ..< n}"
proof -
  have m: "mset xs = mset (map int [0 ..< n])" using assms by (simp add: permutation_of_def)
  show "length xs = n" using mset_eq_length[OF m] by simp
  have "distinct (map int [0 ..< n])" by (simp add: distinct_map)
  then show "distinct xs" using mset_eq_imp_distinct_iff[OF m] by simp
  show "set xs = int ` {0 ..< n}" using mset_eq_setD[OF m] by simp
qed


section \<open>Gather and scatter\<close>

lemma schedule_of_ge0: "schedule_of N sched \<Longrightarrow> t \<in> set sched \<Longrightarrow> 0 \<le> t"
  by (auto simp: schedule_of_def thread_ids_nonneg)

lemma schedule_of_distinct: "schedule_of N sched \<Longrightarrow> distinct sched"
  by (simp add: schedule_of_def)

lemma gather_thread:
  assumes "i < n" "length pai = n" "\<forall>k\<in>set pai. 0 \<le> k \<and> k < int (length pos)"
    "length vel = length pos" "length cp = n" "length cv = n"
  shows "kernFillCoherentArrays (int n) pai pos vel (int i) (cp, cv)
     = Some (cp[i := pos ! nat (pai ! i)], cv[i := vel ! nat (pai ! i)])"
proof -
  have "pai ! i \<in> set pai" using assms by simp
  then have k: "0 \<le> pai ! i" "pai ! i < int (length pos)" using assms(3) by auto
  have "rd pai (int i) = Some (pai ! i)" using assms by (simp add: rd_def)
  moreover have "rd pos (pai ! i) = Some (pos ! nat (pai ! i))" using k by (simp add: rd_def)
  moreover have "rd vel (pai ! i) = Some (vel ! nat (pai ! i))" using k assms(4) by (simp add: rd_def)
  ultimately show ?thesis using assms by (simp add: kernFillCoherentArrays_def wr_def)
qed

lemma gather_launch:
  assumes "schedule_of (int n) sched" "length pai = n" "\<forall>k\<in>set pai. 0 \<le> k \<and> k < int (length pos)"
    "length vel = length pos" "length c0 = n" "length c1 = n"
  shows "for_each (kernFillCoherentArrays (int n) pai pos vel) sched (c0, c1)
     = Some (map (\<lambda>i. pos ! nat (pai ! i)) [0 ..< n], map (\<lambda>i. vel ! nat (pai ! i)) [0 ..< n])"
proof -
  define I where "I = (\<lambda>s :: 'a list \<times> 'a list. length (fst s) = n \<and> length (snd s) = n)"
  define Q where "Q = (\<lambda>t (s :: 'a list \<times> 'a list). 0 \<le> t \<and> t < int n \<longrightarrow>
     fst s ! nat t = pos ! nat (pai ! nat t) \<and> snd s ! nat t = vel ! nat (pai ! nat t))"
  have "\<exists>s'. for_each (kernFillCoherentArrays (int n) pai pos vel) sched (c0, c1) = Some s' \<and> I s'
       \<and> (\<forall>t\<in>set sched. Q t s')
       \<and> (\<forall>u. u \<notin> set sched \<longrightarrow> (Q u (c0, c1) \<longrightarrow> Q u s') \<and> (True \<longrightarrow> True))"
  proof (rule for_each_threads[where R = "\<lambda>_ _. True"])
    show "distinct sched" using assms(1) by (rule schedule_of_distinct)
    show "I (c0, c1)" using assms by (simp add: I_def)
    show "True" ..
    show "\<exists>s'. kernFillCoherentArrays (int n) pai pos vel t s = Some s' \<and> I s' \<and> Q t s'
        \<and> (\<forall>u. u \<noteq> t \<longrightarrow> (True \<longrightarrow> True) \<and> (Q u s \<longrightarrow> Q u s'))"
      if t: "t \<in> set sched" and s: "I s" for t s
    proof (cases "t < int n")
      case False
      then show ?thesis using s by (simp add: kernFillCoherentArrays_def Q_def)
    next
      case True
      obtain cp cv where [simp]: "s = (cp, cv)" by (cases s)
      have t0: "0 \<le> t" using schedule_of_ge0[OF assms(1) t] .
      have l: "length cp = n" "length cv = n" using s by (simp_all add: I_def)
      have "kernFillCoherentArrays (int n) pai pos vel (int (nat t)) (cp, cv)
         = Some (cp[nat t := pos ! nat (pai ! nat t)], cv[nat t := vel ! nat (pai ! nat t)])"
        using True t0 assms l by (intro gather_thread) auto
      then show ?thesis using t0 True l by (auto simp: I_def Q_def)
    qed
  qed
  then obtain cp cv where r: "for_each (kernFillCoherentArrays (int n) pai pos vel) sched (c0, c1) = Some (cp, cv)"
    "length cp = n" "length cv = n" and q: "\<And>t. t \<in> set sched \<Longrightarrow> Q t (cp, cv)"
    by (auto simp: I_def)
  have v: "cp ! i = pos ! nat (pai ! i) \<and> cv ! i = vel ! nat (pai ! i)" if "i < n" for i
  proof -
    have "int i \<in> set sched" using assms(1) that by (auto simp: schedule_of_def thread_ids_cover)
    then show ?thesis using q[of "int i"] that by (simp add: Q_def)
  qed
  have "cp = map (\<lambda>i. pos ! nat (pai ! i)) [0 ..< n]" using r(2) v by (intro nth_equalityI) auto
  moreover have "cv = map (\<lambda>i. vel ! nat (pai ! i)) [0 ..< n]" using r(3) v by (intro nth_equalityI) auto
  ultimately show ?thesis using r(1) by simp
qed

lemma scatter_thread:
  assumes "i < n" "length pai = n" "\<forall>k\<in>set pai. 0 \<le> k \<and> k < int (length p)"
    "length v = length p" "length cp = n" "length cv = n"
  shows "kernFillOriginalArrays (int n) pai cp cv (int i) (p, v)
     = Some (p[nat (pai ! i) := cp ! i], v[nat (pai ! i) := cv ! i])"
proof -
  have "pai ! i \<in> set pai" using assms by simp
  then have k: "0 \<le> pai ! i" "pai ! i < int (length p)" using assms(3) by auto
  have "rd pai (int i) = Some (pai ! i)" using assms by (simp add: rd_def)
  moreover have "rd cp (int i) = Some (cp ! i)" using assms by (simp add: rd_def)
  moreover have "rd cv (int i) = Some (cv ! i)" using assms by (simp add: rd_def)
  ultimately show ?thesis using assms k by (simp add: kernFillOriginalArrays_def wr_def)
qed

lemma scatter_launch:
  assumes "schedule_of (int n) sched" "permutation_of n pai"
    "length cp = n" "length cv = n" "length p0 = n" "length v0 = n"
  shows "\<exists>p v. for_each (kernFillOriginalArrays (int n) pai cp cv) sched (p0, v0) = Some (p, v)
     \<and> length p = n \<and> length v = n
     \<and> (\<forall>i<n. p ! nat (pai ! i) = cp ! i \<and> v ! nat (pai ! i) = cv ! i)"
proof -
  note pd = permutation_ofD[OF assms(2)]
  have rng: "0 \<le> pai ! i \<and> pai ! i < int n" if "i < n" for i
  proof -
    have "pai ! i \<in> set pai" using that pd(1) by simp
    then show ?thesis using pd(3) by auto
  qed
  have inj: "i = j" if "i < n" "j < n" "pai ! i = pai ! j" for i j
    using that pd(1,2) by (simp add: nth_eq_iff_index_eq)
  define I where "I = (\<lambda>s :: 'a list \<times> 'a list. length (fst s) = n \<and> length (snd s) = n)"
  define Q where "Q = (\<lambda>t (s :: 'a list \<times> 'a list). 0 \<le> t \<and> t < int n \<longrightarrow>
     fst s ! nat (pai ! nat t) = cp ! nat t \<and> snd s ! nat (pai ! nat t) = cv ! nat t)"
  have "\<exists>s'. for_each (kernFillOriginalArrays (int n) pai cp cv) sched (p0, v0) = Some s' \<and> I s'
       \<and> (\<forall>t\<in>set sched. Q t s')
       \<and> (\<forall>u. u \<notin> set sched \<longrightarrow> (Q u (p0, v0) \<longrightarrow> Q u s') \<and> (True \<longrightarrow> True))"
  proof (rule for_each_threads[where R = "\<lambda>_ _. True"])
    show "distinct sched" using assms(1) by (rule schedule_of_distinct)
    show "I (p0, v0)" using assms by (simp add: I_def)
    show "True" ..
    show "\<exists>s'. kernFillOriginalArrays (int n) pai cp cv t s = Some s' \<and> I s' \<and> Q t s'
        \<and> (\<forall>u. u \<noteq> t \<longrightarrow> (True \<longrightarrow> True) \<and> (Q u s \<longrightarrow> Q u s'))"
      if t: "t \<in> set sched" and s: "I s" for t s
    proof (cases "t < int n")
      case False
      then show ?thesis using s by (simp add: kernFillOriginalArrays_def Q_def)
    next
      case True
      obtain p v where [simp]: "s = (p, v)" by (cases s)
      have t0: "0 \<le> t" using schedule_of_ge0[OF assms(1) t] .
      define i where "i = nat t"
      have i: "t = int i" "i < n" using t0 True by (auto simp: i_def)
      have l: "length p = n" "length v = n" using s by (simp_all add: I_def)
      have b: "kernFillOriginalArrays (int n) pai cp cv (int i) (p, v)
         = Some (p[nat (pai ! i) := cp ! i], v[nat (pai ! i) := cv ! i])"
        using i pd assms l by (intro scatter_thread) auto
      have other: "Q u (p[nat (pai ! i) := cp ! i], v[nat (pai ! i) := cv ! i])"
        if "u \<noteq> t" "Q u (p, v)" for u
      proof (cases "0 \<le> u \<and> u < int n")
        case False
        then show ?thesis by (auto simp: Q_def)
      next
        case True
        then have "nat u < n" "nat u \<noteq> i" using that(1) i by auto
        then have "pai ! nat u \<noteq> pai ! i" using inj[of "nat u" i] i by auto
        then have "nat (pai ! nat u) \<noteq> nat (pai ! i)"
          using rng[of "nat u"] rng[of i] i \<open>nat u < n\<close> by auto
        then show ?thesis using that(2) True by (simp add: Q_def)
      qed
      have "nat (pai ! i) < length p" "nat (pai ! i) < length v" using l rng[of i] i by auto
      then have "Q t (p[nat (pai ! i) := cp ! i], v[nat (pai ! i) := cv ! i])"
        using i by (simp add: Q_def)
      then show ?thesis using b i l other by (auto simp: I_def)
    qed
  qed
  then obtain p v where r: "for_each (kernFillOriginalArrays (int n) pai cp cv) sched (p0, v0) = Some (p, v)"
    "length p = n" "length v = n" and q: "\<And>t. t \<in> set sched \<Longrightarrow> Q t (p, v)"
    by (auto simp: I_def)
  have "p ! nat (pai ! i) = cp ! i \<and> v ! nat (pai ! i) = cv ! i" if "i < n" for i
  proof -
    have "int i \<in> set sched" using assms(1) that by (auto simp: schedule_of_def thread_ids_cover)
    then show ?thesis using q[of "int i"] that by (simp add: Q_def)
  qed
  then show ?thesis using r by blast
qed

lemma permutation_of_onto:
  assumes "permutation_of n pai" "k < n"
  shows "\<exists>i<n. pai ! i = int k"
proof -
  note pd = permutation_ofD[OF assms(1)]
  have "int k \<in> set pai" using pd(3) assms(2) by auto
  then show ?thesis using pd(1) by (auto simp: in_set_conv_nth)
qed

section \<open>Kernels that write one slot per thread\<close>

lemma launch_in_place:
  assumes "schedule_of (int n) sched" "length s0 = n"
    and idle: "\<And>t s. int n \<le> t \<Longrightarrow> body t s = Some s"
    and work: "\<And>i s. i < n \<Longrightarrow> length s = n \<Longrightarrow> body (int i) s = Some (s[i := H i (s ! i)])"
  shows "for_each body sched s0 = Some (map (\<lambda>i. H i (s0 ! i)) [0 ..< n])"
proof -
  define I where "I = (\<lambda>s :: 'a list. length s = n)"
  define R where "R = (\<lambda>t (s :: 'a list). 0 \<le> t \<and> t < int n \<longrightarrow> s ! nat t = s0 ! nat t)"
  define Q where "Q = (\<lambda>t (s :: 'a list). 0 \<le> t \<and> t < int n \<longrightarrow> s ! nat t = H (nat t) (s0 ! nat t))"
  have "\<exists>s'. for_each body sched s0 = Some s' \<and> I s' \<and> (\<forall>t\<in>set sched. Q t s')
       \<and> (\<forall>u. u \<notin> set sched \<longrightarrow> (Q u s0 \<longrightarrow> Q u s') \<and> (R u s0 \<longrightarrow> R u s'))"
  proof (rule for_each_threads)
    show "distinct sched" using assms(1) by (rule schedule_of_distinct)
    show "I s0" using assms(2) by (simp add: I_def)
    show "R t s0" for t by (simp add: R_def)
    show "\<exists>s'. body t s = Some s' \<and> I s' \<and> Q t s'
        \<and> (\<forall>u. u \<noteq> t \<longrightarrow> (R u s \<longrightarrow> R u s') \<and> (Q u s \<longrightarrow> Q u s'))"
      if t: "t \<in> set sched" and s: "I s" "R t s" for t s
    proof (cases "t < int n")
      case False
      then have "body t s = Some s" by (intro idle) simp
      then show ?thesis using s False by (simp add: Q_def)
    next
      case True
      have t0: "0 \<le> t" using schedule_of_ge0[OF assms(1) t] .
      define i where "i = nat t"
      have i: "t = int i" "i < n" using t0 True by (auto simp: i_def)
      have l: "length s = n" using s by (simp add: I_def)
      have b: "body t s = Some (s[i := H i (s ! i)])" unfolding i(1) using i(2) l by (rule work)
      have si: "s ! i = s0 ! i" using s(2) i by (simp add: R_def)
      have "Q t (s[i := H i (s ! i)])" using i l si by (simp add: Q_def)
      moreover have "(R u s \<longrightarrow> R u (s[i := H i (s ! i)])) \<and> (Q u s \<longrightarrow> Q u (s[i := H i (s ! i)]))"
        if "u \<noteq> t" for u
      proof (cases "0 \<le> u")
        case True
        then have "nat u \<noteq> i" using that i by auto
        then show ?thesis by (simp add: R_def Q_def)
      next
        case False
        then show ?thesis by (simp add: R_def Q_def)
      qed
      ultimately show ?thesis using b l by (simp add: I_def)
    qed
  qed
  then obtain s' where r: "for_each body sched s0 = Some s'" "length s' = n"
    and q: "\<And>t. t \<in> set sched \<Longrightarrow> Q t s'"
    by (auto simp: I_def)
  have "s' ! i = H i (s0 ! i)" if "i < n" for i
  proof -
    have "int i \<in> set sched" using assms(1) that by (auto simp: schedule_of_def thread_ids_cover)
    then show ?thesis using q[of "int i"] that by (simp add: Q_def)
  qed
  then have "s' = map (\<lambda>i. H i (s0 ! i)) [0 ..< n]" using r(2) by (intro nth_equalityI) auto
  then show ?thesis using r(1) by simp
qed

lemma launch_own_slot:
  assumes "schedule_of (int n) sched" "length s0 = n"
    and idle: "\<And>t s. int n \<le> t \<Longrightarrow> body t s = Some s"
    and work: "\<And>i s. i < n \<Longrightarrow> length s = n \<Longrightarrow> body (int i) s = Some (s[i := G i])"
  shows "for_each body sched s0 = Some (map G [0 ..< n])"
  using launch_in_place[where H = "\<lambda>i _. G i", OF assms(1,2) idle work] by simp


section \<open>Initialisation\<close>

lemma run_steps_append:
  "run_steps (fs @ gs) s = (case run_steps fs s of Inl x \<Rightarrow> Inl x | Inr s' \<Rightarrow> run_steps gs s')"
  by (induction fs arbitrary: s) (auto split: sum.splits)

lemma run_steps_preserves:
  assumes "\<And>f s s'. f \<in> set fs \<Longrightarrow> f s = Inr s' \<Longrightarrow> P s \<Longrightarrow> P s'"
    and "run_steps fs s = Inr s'" "P s"
  shows "P s'"
  using assms
proof (induction fs arbitrary: s)
  case Nil
  then show ?case by simp
next
  case (Cons f fs)
  from Cons.prems(2) obtain s1 where s1: "f s = Inr s1" "run_steps fs s1 = Inr s'"
    by (auto split: sum.splits)
  have "P s1" using Cons.prems(1)[of f s s1] s1(1) Cons.prems(3) by simp
  then show ?case using Cons.IH[of s1] Cons.prems(1) s1(2) by auto
qed

lemma initGridParams_values:
  "gridCellWidth (initGridParams g) = 10"
  "gridSideCount (initGridParams g) = 22"
  "gridCellCount (initGridParams g) = 10648"
  "gridInverseCellWidth (initGridParams g) = rnd32 (1 / 10)"
  "gridMinimum (initGridParams g) = gridMinimum g - Vec3 110 110 110"
  by (simp_all add: initGridParams_def Let_def cell_width_mul_def rule1Distance_def rule2Distance_def
      rule3Distance_def scene_scale_def trunc_int_def minus_tvec3_def)

lemma initGridParams_other:
  "numObjects (initGridParams g) = numObjects g"
  "allocations (initGridParams g) = allocations g"
  "last_error (initGridParams g) = last_error g"
  "stderr (initGridParams g) = stderr g"
  "dev_pos (initGridParams g) = dev_pos g"
  "dev_vel1 (initGridParams g) = dev_vel1 g"
  "dev_vel2 (initGridParams g) = dev_vel2 g"
  by (simp_all add: initGridParams_def Let_def)

lemma checkCUDAError_Inr:
  "checkCUDAError msg line g = Inr g' \<Longrightarrow> g' = g\<lparr>last_error := cudaSuccess\<rparr>"
  by (auto simp: checkCUDAError_def Let_def split: if_splits)

lemma ALLOC_Inr:
  "ALLOC e name n line store g = Inr g' \<Longrightarrow>
     g' = store (g\<lparr>allocations := allocations g @ [(name, n)]\<rparr>) \<and> malloc_ok e name n"
  by (auto simp: ALLOC_def cudaMalloc_def checkCUDAError_def Let_def split: if_splits)

lemma initParticleBuffers_grid:
  assumes "run_steps (initParticleBuffers e N) g = Inr g'"
  shows "grid_of g' = grid_of g"
proof (rule run_steps_preserves[where P = "\<lambda>s. grid_of s = grid_of g", OF _ assms])
  show "grid_of g = grid_of g" ..
  show "grid_of s' = grid_of g"
    if "f \<in> set (initParticleBuffers e N)" "f s = Inr s'" "grid_of s = grid_of g" for f s s'
    using that
    by (auto simp: initParticleBuffers_def grid_of_def cudaMalloc_def dest!: checkCUDAError_Inr
        split: option.splits)
qed

lemma initGridBuffers_grid:
  assumes "run_steps (initGridBuffers e N) g = Inr g'"
  shows "grid_of g' = grid_of g"
proof (rule run_steps_preserves[where P = "\<lambda>s. grid_of s = grid_of g", OF _ assms])
  show "grid_of g = grid_of g" ..
  show "grid_of s' = grid_of g"
    if "f \<in> set (initGridBuffers e N)" "f s = Inr s'" "grid_of s = grid_of g" for f s s'
    using that
    by (auto simp: initGridBuffers_def grid_of_def dest!: ALLOC_Inr)
qed

lemma initSimulation_grid:
  assumes "initSimulation e N g = Inr g'"
  shows "gridCellWidth g' = 10" "gridSideCount g' = 22" "gridCellCount g' = 10648"
    "gridInverseCellWidth g' = rnd32 (1 / 10)" "gridMinimum g' = gridMinimum g - Vec3 110 110 110"
proof -
  from assms obtain g1 where g1: "run_steps (initParticleBuffers e N) g = Inr g1"
    and r: "run_steps ([\<lambda>g. Inr (initGridParams g)] @ initGridBuffers e N) g1 = Inr g'"
    by (auto simp: initSimulation_def run_steps_append split: sum.splits)
  have r': "run_steps (initGridBuffers e N) (initGridParams g1) = Inr g'" using r by simp
  have a: "grid_of g1 = grid_of g" using g1 by (rule initParticleBuffers_grid)
  have b: "grid_of g' = grid_of (initGridParams g1)" using r' by (rule initGridBuffers_grid)
  have m: "gridMinimum g1 = gridMinimum g" using a by (simp add: grid_of_def)
  show "gridCellWidth g' = 10" "gridSideCount g' = 22" "gridCellCount g' = 10648"
    "gridInverseCellWidth g' = rnd32 (1 / 10)" "gridMinimum g' = gridMinimum g - Vec3 110 110 110"
    using b m by (simp_all add: grid_of_def initGridParams_values)
qed

lemma schedule_of_thread_ids_nat: "schedule_of (int n) (thread_ids (int n))"
  by (rule schedule_of_thread_ids)

lemma thread_ids_nonpos: "N \<le> 0 \<Longrightarrow> thread_ids N = []"
proof -
  assume n: "N \<le> 0"
  define a where "a = N + blockSize - 1"
  have a: "a \<le> 127" using n by (simp add: a_def blockSize_def)
  have "a sdiv 128 \<le> 0"
  proof (cases "a < 0")
    case True
    then have "a sdiv 128 = - (\<bar>a\<bar> div 128)" by (simp add: signed_divide_int_def)
    then show ?thesis by (simp add: pos_imp_zdiv_nonneg_iff)
  next
    case False
    then have "\<bar>a\<bar> div 128 = 0" using a by simp
    then show ?thesis by (simp add: signed_divide_int_def)
  qed
  then have "fullBlocksPerGrid N * blockSize \<le> 0"
    unfolding fullBlocksPerGrid_def a_def[symmetric] by (simp add: blockSize_def mult_le_0_iff)
  then show ?thesis by (simp add: thread_ids_def)
qed

lemma generate_launch:
  assumes "length arr = nat N"
  shows "\<exists>arr'. for_each (kernGenerateRandomPosArray e t N sc) (thread_ids N) arr = Some arr'
           \<and> length arr' = nat N"
proof (cases "N \<le> 0")
  case True
  then show ?thesis using assms by (simp add: thread_ids_nonpos)
next
  case False
  define n where "n = nat N"
  have N: "N = int n" using False by (simp add: n_def)
  let ?G = "\<lambda>i. let rand = generateRandomVec3 e (real_of_int t) (int i)
                  in Vec3 (sc * vx rand) (sc * vy rand) (sc * vz rand)"
  have "for_each (kernGenerateRandomPosArray e t (int n) sc) (thread_ids (int n)) arr
      = Some (map ?G [0 ..< n])"
  proof (rule launch_own_slot[OF schedule_of_thread_ids_nat])
    show "length arr = n" using assms by (simp add: n_def)
    show "kernGenerateRandomPosArray e t (int n) sc u s = Some s" if "int n \<le> u" for u s
      using that by (simp add: kernGenerateRandomPosArray_def)
    show "kernGenerateRandomPosArray e t (int n) sc (int i) s = Some (s[i := ?G i])"
      if "i < n" "length s = n" for i s
      using that by (simp add: kernGenerateRandomPosArray_def wr_def)
  qed
  then show ?thesis unfolding N by simp
qed

lemma char_of_digits:
  "char_of (48::nat) = CHR ''0''" "char_of (49::nat) = CHR ''1''" "char_of (50::nat) = CHR ''2''"
  "char_of (51::nat) = CHR ''3''" "char_of (52::nat) = CHR ''4''" "char_of (53::nat) = CHR ''5''"
  "char_of (54::nat) = CHR ''6''" "char_of (55::nat) = CHR ''7''" "char_of (56::nat) = CHR ''8''"
  "char_of (57::nat) = CHR ''9''"
  by code_simp+

lemma particle_phase_ok:
  assumes "last_error g = cudaSuccess"
    "malloc_ok e ''dev_pos'' N" "malloc_ok e ''dev_vel1'' N" "malloc_ok e ''dev_vel2'' N"
  shows "\<exists>g'. run_steps (initParticleBuffers e N) g = Inr g'
     \<and> allocations g' = allocations g @ take 3 (init_allocations N)
     \<and> stderr g' = stderr g \<and> last_error g' = cudaSuccess \<and> numObjects g' = N
     \<and> length (dev_pos g') = nat N \<and> length (dev_vel1 g') = nat N \<and> length (dev_vel2 g') = nat N"
proof -
  obtain arr where arr: "for_each (kernGenerateRandomPosArray e 1 N scene_scale) (thread_ids N)
      (fresh_vec3 e ''dev_pos'' N) = Some arr" "length arr = nat N"
    using generate_launch[of "fresh_vec3 e ''dev_pos'' N" N e 1 scene_scale]
    by (auto simp: fresh_vec3_def)
  show ?thesis
    using assms arr
    by (simp add: initParticleBuffers_def cudaMalloc_def checkCUDAError_def Let_def
        init_allocations_def fresh_vec3_def)
qed

lemma particle_phase_fail:
  assumes "last_error g = cudaSuccess" "k < 3"
    "\<forall>a\<in>set (take k (init_allocations N)). malloc_ok e (fst a) (snd a)"
    "\<not> malloc_ok e (fst (init_allocations N ! k)) (snd (init_allocations N ! k))"
  shows "\<exists>g'. run_steps (initParticleBuffers e N) g = Inl g'
     \<and> allocations g' = allocations g @ take k (init_allocations N)
     \<and> stderr g' = stderr g @ init_failure_reports ! k"
proof -
  consider "k = 0" | "k = 1" | "k = 2" using assms(2) by linarith
  then show ?thesis
  proof cases
    case 1
    then show ?thesis using assms(1,4)
      by (simp add: initParticleBuffers_def cudaMalloc_def checkCUDAError_def Let_def
          init_allocations_def init_failure_reports_def char_of_digits cudaGetErrorString_def)
  next
    case 2
    then show ?thesis using assms(1,3,4)
      by (simp add: initParticleBuffers_def cudaMalloc_def checkCUDAError_def Let_def
          init_allocations_def init_failure_reports_def char_of_digits cudaGetErrorString_def)
  next
    case 3
    then show ?thesis using assms(1,3,4)
      by (simp add: initParticleBuffers_def cudaMalloc_def checkCUDAError_def Let_def
          init_allocations_def init_failure_reports_def char_of_digits cudaGetErrorString_def
          numeral_2_eq_2)
  qed
qed

lemma grid_phase_ok:
  assumes "gridCellCount g = 10648"
    "\<forall>a\<in>set (drop 3 (init_allocations N)). malloc_ok e (fst a) (snd a)"
  shows "\<exists>g'. run_steps (initGridBuffers e N) g = Inr g'
     \<and> allocations g' = allocations g @ drop 3 (init_allocations N)
     \<and> stderr g' = stderr g \<and> last_error g' = last_error g \<and> numObjects g' = numObjects g
     \<and> dev_pos g' = dev_pos g \<and> dev_vel1 g' = dev_vel1 g \<and> dev_vel2 g' = dev_vel2 g
     \<and> length (dev_particleArrayIndices g') = nat N \<and> length (dev_particleGridIndices g') = nat N
     \<and> length (dev_gridCellStartIndices g') = 10648 \<and> length (dev_gridCellEndIndices g') = 10648
     \<and> length (dev_coherentPos g') = nat N \<and> length (dev_coherentVel2 g') = nat N"
  using assms
  by (simp add: initGridBuffers_def ALLOC_def cudaMalloc_def init_allocations_def
      fresh_vec3_def fresh_int_def)

lemma grid_phase_fail:
  assumes "last_error g = cudaSuccess" "gridCellCount g = 10648" "3 \<le> k" "k < 9"
    "\<forall>a\<in>set (drop 3 (take k (init_allocations N))). malloc_ok e (fst a) (snd a)"
    "\<not> malloc_ok e (fst (init_allocations N ! k)) (snd (init_allocations N ! k))"
  shows "\<exists>g'. run_steps (initGridBuffers e N) g = Inl g'
     \<and> allocations g' = allocations g @ drop 3 (take k (init_allocations N))
     \<and> stderr g' = stderr g @ init_failure_reports ! k"
proof -
  consider "k = 3" | "k = 4" | "k = 5" | "k = 6" | "k = 7" | "k = 8" using assms(3,4) by linarith
  then show ?thesis
  proof cases
    case 1
    then show ?thesis using assms(1,2,5,6)
      by (simp add: initGridBuffers_def ALLOC_def cudaMalloc_def checkCUDAError_def Let_def
          init_allocations_def init_failure_reports_def char_of_digits cudaGetErrorString_def)
  next
    case 2
    then show ?thesis using assms(1,2,5,6)
      by (simp add: initGridBuffers_def ALLOC_def cudaMalloc_def checkCUDAError_def Let_def
          init_allocations_def init_failure_reports_def char_of_digits cudaGetErrorString_def)
  next
    case 3
    then show ?thesis using assms(1,2,5,6)
      by (simp add: initGridBuffers_def ALLOC_def cudaMalloc_def checkCUDAError_def Let_def
          init_allocations_def init_failure_reports_def char_of_digits cudaGetErrorString_def)
  next
    case 4
    then show ?thesis using assms(1,2,5,6)
      by (simp add: initGridBuffers_def ALLOC_def cudaMalloc_def checkCUDAError_def Let_def
          init_allocations_def init_failure_reports_def char_of_digits cudaGetErrorString_def)
  next
    case 5
    then show ?thesis using assms(1,2,5,6)
      by (simp add: initGridBuffers_def ALLOC_def cudaMalloc_def checkCUDAError_def Let_def
          init_allocations_def init_failure_reports_def char_of_digits cudaGetErrorString_def)
  next
    case 6
    then show ?thesis using assms(1,2,5,6)
      by (simp add: initGridBuffers_def ALLOC_def cudaMalloc_def checkCUDAError_def Let_def
          init_allocations_def init_failure_reports_def char_of_digits cudaGetErrorString_def)
  qed
qed

lemma init_failure:
  assumes "last_error g = cudaSuccess" "k < 9"
    "\<forall>a\<in>set (take k (init_allocations N)). malloc_ok e (fst a) (snd a)"
    "\<not> malloc_ok e (fst (init_allocations N ! k)) (snd (init_allocations N ! k))"
  shows "\<exists>g'. initSimulation e N g = Inl g'
     \<and> allocations g' = allocations g @ take k (init_allocations N)
     \<and> stderr g' = stderr g @ init_failure_reports ! k"
proof (cases "k < 3")
  case True
  obtain g' where g': "run_steps (initParticleBuffers e N) g = Inl g'"
    "allocations g' = allocations g @ take k (init_allocations N)"
    "stderr g' = stderr g @ init_failure_reports ! k"
    using particle_phase_fail[OF assms(1) True assms(3,4)] by blast
  then show ?thesis by (simp add: initSimulation_def run_steps_append)
next
  case False
  then have k3: "3 \<le> k" by simp
  have t3: "take 3 (take k (init_allocations N)) = take 3 (init_allocations N)"
    using k3 by (simp add: min_def)
  have first: "\<forall>a\<in>set (take 3 (init_allocations N)). malloc_ok e (fst a) (snd a)"
    using assms(3) t3 by (metis in_set_takeD)
  have rest: "\<forall>a\<in>set (drop 3 (take k (init_allocations N))). malloc_ok e (fst a) (snd a)"
    using assms(3) by (meson in_set_dropD)
  obtain g1 where g1: "run_steps (initParticleBuffers e N) g = Inr g1"
    "allocations g1 = allocations g @ take 3 (init_allocations N)"
    "stderr g1 = stderr g" "last_error g1 = cudaSuccess"
    using particle_phase_ok[OF assms(1), of e N] first by (auto simp: init_allocations_def)
  let ?g2 = "initGridParams g1"
  obtain g' where g': "run_steps (initGridBuffers e N) ?g2 = Inl g'"
    "allocations g' = allocations ?g2 @ drop 3 (take k (init_allocations N))"
    "stderr g' = stderr ?g2 @ init_failure_reports ! k"
    using grid_phase_fail[of ?g2 k N e] g1(4) k3 assms(2,4) rest
    by (auto simp: initGridParams_values initGridParams_other)
  have "take 3 (init_allocations N) @ drop 3 (take k (init_allocations N)) = take k (init_allocations N)"
    using append_take_drop_id[of 3 "take k (init_allocations N)"] t3 by simp
  then have "allocations g' = allocations g @ take k (init_allocations N)"
    using g'(2) g1(2) by (simp add: initGridParams_other)
  moreover have "stderr g' = stderr g @ init_failure_reports ! k"
    using g'(3) g1(3) by (simp add: initGridParams_other)
  moreover have "initSimulation e N g = Inl g'"
    using g1(1) g'(1) by (simp add: initSimulation_def run_steps_append)
  ultimately show ?thesis by blast
qed

lemma init_success:
  assumes "last_error g = cudaSuccess"
    "\<forall>a\<in>set (init_allocations N). malloc_ok e (fst a) (snd a)"
  shows "\<exists>g'. initSimulation e N g = Inr g'
     \<and> allocations g' = allocations g @ init_allocations N
     \<and> stderr g' = stderr g \<and> last_error g' = cudaSuccess \<and> numObjects g' = N
     \<and> length (dev_pos g') = nat N \<and> length (dev_vel1 g') = nat N \<and> length (dev_vel2 g') = nat N
     \<and> length (dev_particleArrayIndices g') = nat N \<and> length (dev_particleGridIndices g') = nat N
     \<and> length (dev_gridCellStartIndices g') = 10648 \<and> length (dev_gridCellEndIndices g') = 10648
     \<and> length (dev_coherentPos g') = nat N \<and> length (dev_coherentVel2 g') = nat N"
proof -
  obtain g1 where g1: "run_steps (initParticleBuffers e N) g = Inr g1"
    "allocations g1 = allocations g @ take 3 (init_allocations N)"
    "stderr g1 = stderr g" "last_error g1 = cudaSuccess" "numObjects g1 = N"
    "length (dev_pos g1) = nat N" "length (dev_vel1 g1) = nat N" "length (dev_vel2 g1) = nat N"
    using particle_phase_ok[OF assms(1), of e N] assms(2) by (auto simp: init_allocations_def)
  let ?g2 = "initGridParams g1"
  have rest: "\<forall>a\<in>set (drop 3 (init_allocations N)). malloc_ok e (fst a) (snd a)"
    using assms(2) by (meson in_set_dropD)
  obtain g' where g': "run_steps (initGridBuffers e N) ?g2 = Inr g'"
     "allocations g' = allocations ?g2 @ drop 3 (init_allocations N)"
     "stderr g' = stderr ?g2" "last_error g' = last_error ?g2" "numObjects g' = numObjects ?g2"
     "dev_pos g' = dev_pos ?g2" "dev_vel1 g' = dev_vel1 ?g2" "dev_vel2 g' = dev_vel2 ?g2"
     "length (dev_particleArrayIndices g') = nat N" "length (dev_particleGridIndices g') = nat N"
     "length (dev_gridCellStartIndices g') = 10648" "length (dev_gridCellEndIndices g') = 10648"
     "length (dev_coherentPos g') = nat N" "length (dev_coherentVel2 g') = nat N"
    using grid_phase_ok[of ?g2 N e] rest by (auto simp: initGridParams_values)
  have "initSimulation e N g = Inr g'"
    using g1(1) g'(1) by (simp add: initSimulation_def run_steps_append)
  moreover have "allocations g' = allocations g @ init_allocations N"
    using g'(2) g1(2) append_take_drop_id[of 3 "init_allocations N"]
    by (simp add: initGridParams_other)
  ultimately show ?thesis using g' g1 by (simp add: initGridParams_other)
qed

lemma env_ok_grants: "\<forall>a\<in>set (init_allocations N). malloc_ok env_ok (fst a) (snd a)"
  by (simp add: env_ok_def)

lemma half_grid_width:
  "gridCellWidth g' = 10 \<Longrightarrow> real_of_int (\<lfloor>scene_scale / gridCellWidth g'\<rfloor> + 1) * gridCellWidth g' = 110"
  by (simp add: scene_scale_def)


section \<open>Position integration\<close>

lemma kernUpdatePos_launch:
  assumes "schedule_of (int n) sched" "length pos = n" "length vel = n"
  shows "for_each (kernUpdatePos fp (int n) dt vel) sched pos
     = Some (map (\<lambda>i. integrate fp dt (pos ! i) (vel ! i)) [0 ..< n])"
proof (rule launch_in_place[OF assms(1,2)])
  show "kernUpdatePos fp (int n) dt vel t s = Some s" if "int n \<le> t" for t s
    using that by (simp add: kernUpdatePos_def)
  show "kernUpdatePos fp (int n) dt vel (int i) s = Some (s[i := integrate fp dt (s ! i) (vel ! i)])"
    if "i < n" "length s = n" for i s
    using that assms(3) by (simp add: kernUpdatePos_def rd_def wr_def integrate_def Let_def)
qed

lemma wrap_axis_cases:
  "wrap_axis c = (if c > scene_scale then - scene_scale else if c < - scene_scale then scene_scale else c)"
  by (simp add: wrap_axis_def scene_scale_def)

lemma integrate_axis:
  "ax \<in> {vx, vy, vz} \<Longrightarrow> ax (integrate fp dt p v) = wrap_axis (fadd fp (ax p) (fmul fp (ax v) dt))"
  by (auto simp: integrate_def Let_def vadd_def vmul_def)

section \<open>The brute-force velocity kernel\<close>
















section \<open>A boid in the lower half of its cell\<close>

text \<open>
  Two boids at rest in the \<open>22\<^sup>3\<close> grid of cell width 10 with minimum \<open>-110\<close>: boid 0 at
  \<open>(-88, -88, -88)\<close>, in cell \<open>(2, 2, 2)\<close>, and boid 1 at \<open>(-90.5, -88, -88)\<close>, in cell
  \<open>(1, 2, 2)\<close>, at distance 2.5. Sorted by cell, \<^verbatim>\<open>particleArrayIndices\<close> is \<open>[1, 0]\<close> and the
  range tables hold \<open>[0, 1)\<close> for cell 1013 and \<open>[1, 2)\<close> for cell 1014. All values are binary32.
\<close>

lemma rnd32_lower_half:
  "rnd32 (147639503 / 67108864) = 9227469 / 4194304"
  "rnd32 (39 / 2) = 39 / 2"
  "rnd32 (523449147 / 268435456) = 8178893 / 4194304"
  "rnd32 (20) = 20"
  "rnd32 (5 / 2) = 5 / 2"
  "rnd32 (25 / 4) = 25 / 4"
  "rnd32 (181 / 2) = 181 / 2"
  "rnd32 (88) = 88"
  "rnd32 (26843545 / 1073741824) = 3355443 / 134217728"
  "rnd32 (67108865 / 268435456) = 1 / 4"
  "rnd32 (3355443 / 134217728) = 3355443 / 134217728"
  "rnd32 (30198989 / 134217728) = 7549747 / 33554432"
  "rnd32 (7549747 / 33554432) = 7549747 / 33554432"
  "rnd32 (56998679764009 / 1125899906842624) = 1698693 / 33554432"
  "rnd32 (1698693 / 33554432) = 1698693 / 33554432"
proof -
  show "rnd32 (147639503 / 67108864) = 9227469 / 4194304"
    by (rule rnd32_evalI[where e = 1]) (simp_all add: powr_minus_divide round_even_def)
  show "rnd32 (39 / 2) = 39 / 2"
    by (rule rnd32_evalI[where e = 4]) (simp_all add: powr_minus_divide round_even_def)
  show "rnd32 (523449147 / 268435456) = 8178893 / 4194304"
    by (rule rnd32_evalI[where e = 0]) (simp_all add: powr_minus_divide round_even_def)
  show "rnd32 (20) = 20"
    by (rule rnd32_evalI[where e = 4]) (simp_all add: powr_minus_divide round_even_def)
  show "rnd32 (5 / 2) = 5 / 2"
    by (rule rnd32_evalI[where e = 1]) (simp_all add: powr_minus_divide round_even_def)
  show "rnd32 (25 / 4) = 25 / 4"
    by (rule rnd32_evalI[where e = 2]) (simp_all add: powr_minus_divide round_even_def)
  show "rnd32 (181 / 2) = 181 / 2"
    by (rule rnd32_evalI[where e = 6]) (simp_all add: powr_minus_divide round_even_def)
  show "rnd32 (88) = 88"
    by (rule rnd32_evalI[where e = 6]) (simp_all add: powr_minus_divide round_even_def)
  show "rnd32 (26843545 / 1073741824) = 3355443 / 134217728"
    by (rule rnd32_evalI[where e = "- 6"]) (simp_all add: powr_minus_divide round_even_def)
  show "rnd32 (67108865 / 268435456) = 1 / 4"
    by (rule rnd32_evalI[where e = "- 2"]) (simp_all add: powr_minus_divide round_even_def)
  show "rnd32 (3355443 / 134217728) = 3355443 / 134217728"
    by (rule rnd32_evalI[where e = "- 6"]) (simp_all add: powr_minus_divide round_even_def)
  show "rnd32 (30198989 / 134217728) = 7549747 / 33554432"
    by (rule rnd32_evalI[where e = "- 3"]) (simp_all add: powr_minus_divide round_even_def)
  show "rnd32 (7549747 / 33554432) = 7549747 / 33554432"
    by (rule rnd32_evalI[where e = "- 3"]) (simp_all add: powr_minus_divide round_even_def)
  show "rnd32 (56998679764009 / 1125899906842624) = 1698693 / 33554432"
    by (rule rnd32_evalI[where e = "- 5"]) (simp_all add: powr_minus_divide round_even_def)
  show "rnd32 (1698693 / 33554432) = 1698693 / 33554432"
    by (rule rnd32_evalI[where e = "- 5"]) (simp_all add: powr_minus_divide round_even_def)
qed

lemma sqrt_lower_half_1: "sqrt (25 / 4) = 5 / 2"
  by (rule real_sqrt_unique) (simp_all add: power2_eq_square)

lemma sqrt_lower_half_2: "rnd32 (sqrt (1698693 / 33554432)) = 7549747 / 33554432"
  by (rule rnd32_sqrtI[where m = 15099494 and k = "- 26"]) (simp_all add: powr_minus_divide power2_eq_square)



lemmas f32_eval = f32_ops rnd32_uminus rnd32_small rnd32_grid rnd32_tenth rnd32_hundredth rnd32_lower_half
  sqrt_lower_half_1 sqrt_lower_half_2

lemmas vec_eval = vadd_def vsub_def vmul_def vdiv_def to_vec3_def dot3_def length3_def distance_def

lemma lower_half_home:
  "getGridIndex f32 (Vec3 (- 88) (- 88) (- 88)) (rnd32 (1 / 10)) (Vec3 (- 110) (- 110) (- 110))
     = Some (Vec3 2 2 2)"
  by (simp add: getGridIndex_def assert_that_def vec_eval f32_eval)

lemma lower_half_cells:
  "genNeighborCells f32 (Vec3 (- 88) (- 88) (- 88)) (Vec3 2 2 2) (Vec3 (- 110) (- 110) (- 110)) 10
     = [Vec3 2 2 2, Vec3 3 2 2, Vec3 2 3 2, Vec3 3 3 2, Vec3 2 2 3, Vec3 3 2 3, Vec3 2 3 3, Vec3 3 3 3]"
  by (simp add: genNeighborCells_def vec_eval f32_eval plus_tvec3_def)

lemma lower_half_other:
  "getGridIndex f32 (Vec3 (- (181 / 2)) (- 88) (- 88)) (rnd32 (1 / 10)) (Vec3 (- 110) (- 110) (- 110))
     = Some (Vec3 1 2 2)"
  by (simp add: getGridIndex_def assert_that_def vec_eval f32_eval)

lemma lower_half_distance:
  "distance f32 (Vec3 (- (181 / 2)) (- 88) (- 88)) (Vec3 (- 88) (- 88) (- 88)) = 5 / 2"
  by (simp add: vec_eval f32_eval)

lemma lower_half_step:
  "ruleStep f32 [Vec3 (- 88) (- 88) (- 88), Vec3 (- (181 / 2)) (- 88) (- 88)] [Vec3 0 0 0, Vec3 0 0 0] 0 1
      acc_init
     = Some \<lparr>perceived_center = Vec3 (- (181 / 2)) (- 88) (- 88), perceived_velocity = Vec3 0 0 0,
             rule2offset = Vec3 (5 / 2) 0 0, neighbor_cnts0 = 1, neighbor_cnts1 = 1\<rparr>"
  unfolding ruleStep_def
  by (simp add: rd_def lower_half_distance rule1Distance_def rule2Distance_def rule3Distance_def
      acc_init_def vadd_def vsub_def f32_eval)


lemma table_rd:
  "rd ((replicate 10648 (- 1))[1013 := a, 1014 := b]) i
     = (if 0 \<le> i \<and> i < 10648 then Some (if i = 1014 then b else if i = 1013 then a else - 1) else None)"
  by (auto simp add: rd_def nth_list_update)

lemma order_rd: "rd [1, 0] 0 = Some (1::int)" "rd [1, 0] 1 = Some (0::int)"
  by (simp_all add: rd_def)

lemma lower_half_terms:
  "ruleTerms f32 (Vec3 (- 88) (- 88) (- 88))
      \<lparr>perceived_center = Vec3 (- (181 / 2)) (- 88) (- 88), perceived_velocity = Vec3 0 0 0,
             rule2offset = Vec3 (5 / 2) 0 0, neighbor_cnts0 = 1, neighbor_cnts1 = 1\<rparr>
     = (Vec3 (- (3355443 / 134217728)) 0 0, Vec3 (1 / 4) 0 0, Vec3 0 0 0)"
  by (simp add: ruleTerms_def vec_eval f32_eval rule1Scale_def rule2Scale_def rule3Scale_def)

lemma no_neighbor_terms:
  "ruleTerms f32 p acc_init = (Vec3 0 0 0, Vec3 0 0 0, Vec3 0 0 0)"
  by (simp add: ruleTerms_def acc_init_def vec_eval f32_eval)

lemma clampSpeed_zero: "clampSpeed f32 (Vec3 0 0 0) = Vec3 0 0 0"
  by (simp add: clampSpeed_def vec_eval f32_eval maxSpeed_def)

lemma lower_half_clamp:
  "clampSpeed f32 (Vec3 (7549747 / 33554432) 0 0) = Vec3 (7549747 / 33554432) 0 0"
  by (simp add: clampSpeed_def vec_eval f32_eval maxSpeed_def)

lemma lower_half_search8:
  "for_each (visitCell f32 22 ((replicate 10648 (- 1))[1013 := 0, 1014 := 1])
        ((replicate 10648 (- 1))[1013 := 1, 1014 := 2]) (rd [1, 0])
        [Vec3 (- 88) (- 88) (- 88), Vec3 (- (181 / 2)) (- 88) (- 88)] [Vec3 0 0 0, Vec3 0 0 0] 0)
      [Vec3 2 2 2, Vec3 3 2 2, Vec3 2 3 2, Vec3 3 3 2, Vec3 2 2 3, Vec3 3 2 3, Vec3 2 3 3, Vec3 3 3 3]
      acc_init
     = Some acc_init"
  by (simp add: visitCell_def gridIndex3Dto1D_def table_rd order_rd)

lemma lower_half_search27:
  "for_each (visitCell f32 22 ((replicate 10648 (- 1))[1013 := 0, 1014 := 1])
        ((replicate 10648 (- 1))[1013 := 1, 1014 := 2]) (rd [1, 0])
        [Vec3 (- 88) (- 88) (- 88), Vec3 (- (181 / 2)) (- 88) (- 88)] [Vec3 0 0 0, Vec3 0 0 0] 0)
      (neighborCells27 (Vec3 2 2 2)) acc_init
     = Some \<lparr>perceived_center = Vec3 (- (181 / 2)) (- 88) (- 88), perceived_velocity = Vec3 0 0 0,
             rule2offset = Vec3 (5 / 2) 0 0, neighbor_cnts0 = 1, neighbor_cnts1 = 1\<rparr>"
  by (simp add: neighborCells27_def plus_tvec3_def visitCell_def gridIndex3Dto1D_def table_rd
      order_rd lower_half_step)


lemma lower_half_grid8:
  "kernUpdateVelNeighborSearchScattered f32 True 2 22 (Vec3 (- 110) (- 110) (- 110)) (rnd32 (1 / 10)) 10
      ((replicate 10648 (- 1))[1013 := 0, 1014 := 1]) ((replicate 10648 (- 1))[1013 := 1, 1014 := 2])
      [1, 0] [Vec3 (- 88) (- 88) (- 88), Vec3 (- (181 / 2)) (- 88) (- 88)] [Vec3 0 0 0, Vec3 0 0 0]
      0 [Vec3 1 1 1, Vec3 1 1 1]
     = Some [Vec3 0 0 0, Vec3 1 1 1]"
  unfolding kernUpdateVelNeighborSearchScattered_def neighborSearch_def
  by (simp add: rd_def[of "[Vec3 a b c, d]" for a b c d] wr_def lower_half_home lower_half_cells
      lower_half_search8 no_neighbor_terms vadd_def f32_ops clampSpeed_zero del: for_each.simps)

lemma lower_half_grid27:
  "kernUpdateVelNeighborSearchScattered f32 False 2 22 (Vec3 (- 110) (- 110) (- 110)) (rnd32 (1 / 10)) 10
      ((replicate 10648 (- 1))[1013 := 0, 1014 := 1]) ((replicate 10648 (- 1))[1013 := 1, 1014 := 2])
      [1, 0] [Vec3 (- 88) (- 88) (- 88), Vec3 (- (181 / 2)) (- 88) (- 88)] [Vec3 0 0 0, Vec3 0 0 0]
      0 [Vec3 1 1 1, Vec3 1 1 1]
     = Some [Vec3 (7549747 / 33554432) 0 0, Vec3 1 1 1]"
  unfolding kernUpdateVelNeighborSearchScattered_def neighborSearch_def
  by (simp add: rd_def[of "[Vec3 a b c, d]" for a b c d] wr_def lower_half_home
      lower_half_search27 lower_half_terms[unfolded One_nat_def] vadd_def f32_ops rnd32_uminus rnd32_lower_half lower_half_clamp
      del: for_each.simps)

lemma lower_half_brute:
  "kernUpdateVelocityBruteForce f32 2 [Vec3 (- 88) (- 88) (- 88), Vec3 (- (181 / 2)) (- 88) (- 88)]
      [Vec3 0 0 0, Vec3 0 0 0] 0 [Vec3 1 1 1, Vec3 1 1 1]
     = Some [Vec3 (7549747 / 33554432) 0 0, Vec3 1 1 1]"
proof -
  have u: "[0 .. 1] = [0, 1::int]" by (simp add: upto.simps)
  show ?thesis
    unfolding kernUpdateVelocityBruteForce_def computeVelocityChange_def
    by (simp add: rd_def[of "[Vec3 a b c, d]" for a b c d] wr_def u lower_half_step
        lower_half_terms[unfolded One_nat_def] vadd_def f32_ops rnd32_uminus rnd32_lower_half lower_half_clamp)
qed

section \<open>Two runs of the brute-force kernel in binary32\<close>




















text \<open>
  C5. Both tables are reset to the sentinel \<open>-1\<close> and the boundary scan runs on a sorted array
  \<open>g\<close> of cell indices over \<open>M\<close> cells, each launch in any schedule. Then the launches succeed,
  and for every occupied cell \<open>c\<close> the start table holds the first position \<open>f\<close> of \<open>c\<close> in
  \<open>g\<close> and the end table holds one past its last position \<open>l\<close>, while every other cell keeps the
  sentinel in both tables. In particular the array \<open>{4,4,5,9,9}\<close> over 10 cells gives
  \<open>start[4]=0, end[4]=2, start[5]=2, end[5]=3, start[9]=3, end[9]=5\<close> and \<open>-1\<close> elsewhere.
\<close>

theorem cell_range_table:
  "(sorted g \<and> cells_ok M g \<and> schedule_of (int M) sched1 \<and> schedule_of (int M) sched2
      \<and> schedule_of (int (length g)) sched3 \<and> length st0 = M \<and> length en0 = M
    \<longrightarrow> (\<exists>st en.
          buildCellRanges sched1 sched2 sched3 (int M) (int (length g)) g (st0, en0) = Some (st, en)
          \<and> length st = M \<and> length en = M
          \<and> (\<forall>c<M. if int c \<in> set g
                then (\<exists>f l. st ! c = int f \<and> en ! c = int l + 1 \<and> f \<le> l \<and> l < length g
                        \<and> g ! f = int c \<and> g ! l = int c
                        \<and> (\<forall>j<f. g ! j \<noteq> int c) \<and> (\<forall>j<length g. l < j \<longrightarrow> g ! j \<noteq> int c))
                else st ! c = - 1 \<and> en ! c = - 1)))
   \<and> (schedule_of 10 u1 \<and> schedule_of 10 u2 \<and> schedule_of 5 u3 \<and> length a0 = 10 \<and> length b0 = 10
    \<longrightarrow> buildCellRanges u1 u2 u3 10 5 [4, 4, 5, 9, 9] (a0, b0)
          = Some ([- 1, - 1, - 1, - 1, 0, 2, - 1, - 1, - 1, 3],
                  [- 1, - 1, - 1, - 1, 2, 3, - 1, - 1, - 1, 5]))"
proof (intro conjI impI)
  assume h: "sorted g \<and> cells_ok M g \<and> schedule_of (int M) sched1 \<and> schedule_of (int M) sched2
      \<and> schedule_of (int (length g)) sched3 \<and> length st0 = M \<and> length en0 = M"
  show "\<exists>st en.
          buildCellRanges sched1 sched2 sched3 (int M) (int (length g)) g (st0, en0) = Some (st, en)
          \<and> length st = M \<and> length en = M
          \<and> (\<forall>c<M. if int c \<in> set g
                then (\<exists>f l. st ! c = int f \<and> en ! c = int l + 1 \<and> f \<le> l \<and> l < length g
                        \<and> g ! f = int c \<and> g ! l = int c
                        \<and> (\<forall>j<f. g ! j \<noteq> int c) \<and> (\<forall>j<length g. l < j \<longrightarrow> g ! j \<noteq> int c))
                else st ! c = - 1 \<and> en ! c = - 1)"
    by (rule cell_ranges_first_last) (use h in simp_all)
next
  assume h: "schedule_of 10 u1 \<and> schedule_of 10 u2 \<and> schedule_of 5 u3 \<and> length a0 = 10 \<and> length b0 = 10"
  show "buildCellRanges u1 u2 u3 10 5 [4, 4, 5, 9, 9] (a0, b0)
          = Some ([- 1, - 1, - 1, - 1, 0, 2, - 1, - 1, - 1, 3],
                  [- 1, - 1, - 1, - 1, 2, 3, - 1, - 1, - 1, 5])"
    by (rule unit_test_ranges) (use h in simp_all)
qed

theorem cell_range_table_witness:
  "sorted [4, 4, 5, 9, 9 :: int] \<and> cells_ok 10 [4, 4, 5, 9, 9]
   \<and> schedule_of 10 (thread_ids 10) \<and> schedule_of 5 (thread_ids 5)
   \<and> length (replicate 10 (0::int)) = 10 \<and> length (replicate 10 (7::int)) = 10
   \<and> buildCellRanges (thread_ids 10) (thread_ids 10) (thread_ids 5) 10 5 [4, 4, 5, 9, 9]
        (replicate 10 0, replicate 10 7)
      = Some ([- 1, - 1, - 1, - 1, 0, 2, - 1, - 1, - 1, 3],
              [- 1, - 1, - 1, - 1, 2, 3, - 1, - 1, - 1, 5])
   \<and> (\<exists>st en. buildCellRanges (thread_ids 10) (thread_ids 10) (thread_ids 5) 10 5 [4, 4, 5, 9, 9]
           (replicate 10 0, replicate 10 7) = Some (st, en)
         \<and> st ! 4 = 0 \<and> en ! 4 = 2 \<and> st ! 0 = - 1 \<and> en ! 0 = - 1)"
proof -
  have h1: "sorted [4, 4, 5, 9, 9 :: int]" by simp
  have h2: "cells_ok 10 [4, 4, 5, 9, 9]" by (simp add: cells_ok_def)
  have h3: "schedule_of 10 (thread_ids 10)" "schedule_of 5 (thread_ids 5)"
    by (rule schedule_of_thread_ids)+
  have h4: "length (replicate 10 (0::int)) = 10" "length (replicate 10 (7::int)) = 10" by simp_all
  have r: "buildCellRanges (thread_ids 10) (thread_ids 10) (thread_ids 5) 10 5 [4, 4, 5, 9, 9]
        (replicate 10 0, replicate 10 7)
      = Some ([- 1, - 1, - 1, - 1, 0, 2, - 1, - 1, - 1, 3],
              [- 1, - 1, - 1, - 1, 2, 3, - 1, - 1, - 1, 5])"
    using cell_range_table[of "[4, 4, 5, 9, 9]" 10 "thread_ids 10" "thread_ids 10" "thread_ids 5"
        "replicate 10 0" "replicate 10 7" "thread_ids 10" "thread_ids 10" "thread_ids 5"
        "replicate 10 0" "replicate 10 7", THEN conjunct2] h3 h4
    by blast
  show ?thesis using h1 h2 h3 h4 r by simp
qed

text \<open>
  C8. Let \<open>particleArrayIndices\<close> hold a permutation of \<open>0..n-1\<close>. Gathering positions and
  velocities into the coherent buffers (\<open>coherent[i] = original[particleArrayIndices[i]]\<close>) and
  scattering them back (\<open>original[particleArrayIndices[i]] = coherent[i]\<close>), with nothing in
  between, gives back exactly the original position and velocity of every particle, whatever the
  destination buffers held before and in whatever order the threads of the two launches run.
\<close>

theorem coherent_round_trip:
  assumes "permutation_of n pai" "schedule_of (int n) sched1" "schedule_of (int n) sched2"
    "length pos = n" "length vel = n" "length c0 = n" "length c1 = n" "length p0 = n" "length v0 = n"
  shows "\<exists>coherentPos coherentVel.
      for_each (kernFillCoherentArrays (int n) pai pos vel) sched1 (c0, c1) = Some (coherentPos, coherentVel)
    \<and> (\<forall>i<n. coherentPos ! i = pos ! nat (pai ! i) \<and> coherentVel ! i = vel ! nat (pai ! i))
    \<and> for_each (kernFillOriginalArrays (int n) pai coherentPos coherentVel) sched2 (p0, v0) = Some (pos, vel)"
proof -
  note pd = permutation_ofD[OF assms(1)]
  let ?cp = "map (\<lambda>i. pos ! nat (pai ! i)) [0 ..< n]"
  let ?cv = "map (\<lambda>i. vel ! nat (pai ! i)) [0 ..< n]"
  have g: "for_each (kernFillCoherentArrays (int n) pai pos vel) sched1 (c0, c1) = Some (?cp, ?cv)"
    using assms pd by (intro gather_launch) auto
  obtain p v where s: "for_each (kernFillOriginalArrays (int n) pai ?cp ?cv) sched2 (p0, v0) = Some (p, v)"
    "length p = n" "length v = n"
    and sv: "\<And>i. i < n \<Longrightarrow> p ! nat (pai ! i) = ?cp ! i \<and> v ! nat (pai ! i) = ?cv ! i"
    using scatter_launch[OF assms(3,1), of ?cp ?cv p0 v0] assms by auto
  have e: "p ! k = pos ! k \<and> v ! k = vel ! k" if "k < n" for k
  proof -
    have lt: "k < n" using that .
    obtain i where i: "i < n" "pai ! i = int k" using permutation_of_onto[OF assms(1) lt] by auto
    show ?thesis using sv[OF i(1)] i by simp
  qed
  have "p = pos" using s(2) assms(4) e by (intro nth_equalityI) auto
  moreover have "v = vel" using s(3) assms(5) e by (intro nth_equalityI) auto
  ultimately show ?thesis using g s(1) by (intro exI[of _ ?cp] exI[of _ ?cv]) auto
qed


theorem coherent_round_trip_witness:
  "permutation_of 5 [0, 4, 1, 3, 2] \<and> schedule_of 5 (thread_ids 5)
   \<and> (\<exists>coherentPos coherentVel.
        for_each (kernFillCoherentArrays 5 [0, 4, 1, 3, 2]
                    [Vec3 1 2 3, Vec3 4 5 6, Vec3 7 8 9, Vec3 10 11 12, Vec3 13 14 (15::real)]
                    [Vec3 3 2 1, Vec3 6 5 4, Vec3 9 8 7, Vec3 12 11 10, Vec3 15 14 (13::real)])
          (thread_ids 5) (replicate 5 0, replicate 5 0) = Some (coherentPos, coherentVel)
      \<and> for_each (kernFillOriginalArrays 5 [0, 4, 1, 3, 2] coherentPos coherentVel)
          (thread_ids 5) (replicate 5 0, replicate 5 0)
        = Some ([Vec3 1 2 3, Vec3 4 5 6, Vec3 7 8 9, Vec3 10 11 12, Vec3 13 14 15],
                [Vec3 3 2 1, Vec3 6 5 4, Vec3 9 8 7, Vec3 12 11 10, Vec3 15 14 13]))"
proof -
  have p: "permutation_of 5 [0, 4, 1, 3, 2]" by (simp add: permutation_of_def upt_conv_Cons)
  have s: "schedule_of (int 5) (thread_ids 5)" using schedule_of_thread_ids[of 5] by simp
  have "\<exists>coherentPos coherentVel.
        for_each (kernFillCoherentArrays (int 5) [0, 4, 1, 3, 2]
                    [Vec3 1 2 3, Vec3 4 5 6, Vec3 7 8 9, Vec3 10 11 12, Vec3 13 14 (15::real)]
                    [Vec3 3 2 1, Vec3 6 5 4, Vec3 9 8 7, Vec3 12 11 10, Vec3 15 14 (13::real)])
          (thread_ids 5) (replicate 5 0, replicate 5 0) = Some (coherentPos, coherentVel)
      \<and> (\<forall>i<5. coherentPos ! i
              = [Vec3 1 2 3, Vec3 4 5 6, Vec3 7 8 9, Vec3 10 11 12, Vec3 13 14 (15::real)]
                  ! nat ([0, 4, 1, 3, 2] ! i)
            \<and> coherentVel ! i
              = [Vec3 3 2 1, Vec3 6 5 4, Vec3 9 8 7, Vec3 12 11 10, Vec3 15 14 (13::real)]
                  ! nat ([0, 4, 1, 3, 2] ! i))
      \<and> for_each (kernFillOriginalArrays (int 5) [0, 4, 1, 3, 2] coherentPos coherentVel)
          (thread_ids 5) (replicate 5 0, replicate 5 0)
        = Some ([Vec3 1 2 3, Vec3 4 5 6, Vec3 7 8 9, Vec3 10 11 12, Vec3 13 14 15],
                [Vec3 3 2 1, Vec3 6 5 4, Vec3 9 8 7, Vec3 12 11 10, Vec3 15 14 13])"
    by (rule coherent_round_trip[OF p s s]) simp_all
  then show ?thesis using p s by auto
qed

text \<open>
  C6, as the code has it. Position integration computes \<open>c = pos + vel * dt\<close> in single precision
  for each coordinate and then treats each axis on its own: a computed coordinate above
  \<open>+scene_scale\<close> is replaced by exactly \<open>-scene_scale\<close>, one below \<open>-scene_scale\<close> by exactly
  \<open>+scene_scale\<close>, any other computed coordinate is kept. The particle crosses to the opposite
  face and is not reflected; the overshoot is dropped. This holds whatever the rounded addition
  and multiplication are.
\<close>

theorem position_wrap:
  assumes "schedule_of (int n) sched" "length pos = n" "length vel = n"
  shows "\<exists>pos'. for_each (kernUpdatePos fp (int n) dt vel) sched pos = Some pos' \<and> length pos' = n
     \<and> (\<forall>i<n. \<forall>ax\<in>{vx, vy, vz}.
           ax (pos' ! i) = (let c = fadd fp (ax (pos ! i)) (fmul fp (ax (vel ! i)) dt)
                            in if c > scene_scale then - scene_scale
                               else if c < - scene_scale then scene_scale else c))"
proof -
  let ?p = "map (\<lambda>i. integrate fp dt (pos ! i) (vel ! i)) [0 ..< n]"
  have "for_each (kernUpdatePos fp (int n) dt vel) sched pos = Some ?p"
    using assms by (rule kernUpdatePos_launch)
  moreover have "ax (?p ! i) = (let c = fadd fp (ax (pos ! i)) (fmul fp (ax (vel ! i)) dt)
                            in if c > scene_scale then - scene_scale
                               else if c < - scene_scale then scene_scale else c)"
    if "i < n" "ax \<in> {vx, vy, vz}" for i ax
    using that integrate_axis[OF that(2)] by (simp add: wrap_axis_cases Let_def)
  ultimately show ?thesis by (intro exI[of _ ?p]) simp
qed

text \<open>
  In binary32: a boid at \<open>(100, -99, 5)\<close> with velocity \<open>(2, -4, 0)\<close> and \<open>dt = 1/2\<close> lands at
  \<open>(101, -101, 5)\<close> and is stored at \<open>(-100, 100, 5)\<close>; a boid at \<open>x = 100\<close> with velocity
  \<open>2\<^sup>-\<^sup>1\<^sup>9\<close> has the computed coordinate 100, the sum being rounded, and stays at 100.
\<close>

theorem position_wrap_witness:
  "schedule_of 2 (thread_ids 2)
   \<and> (\<exists>pos'. for_each (kernUpdatePos f32 2 (1 / 2) [Vec3 2 (- 4) 0, Vec3 (1 / 524288) 0 0])
                (thread_ids 2) [Vec3 100 (- 99) 5, Vec3 100 0 0]
              = Some pos'
            \<and> length pos' = 2 \<and> pos' ! 0 = Vec3 (- 100) 100 5 \<and> pos' ! 1 = Vec3 100 0 0)"
proof -
  let ?pos = "[Vec3 100 (- 99) 5, Vec3 100 0 (0::real)]"
  let ?vel = "[Vec3 2 (- 4) 0, Vec3 (1 / 524288) 0 (0::real)]"
  have s: "schedule_of (int 2) (thread_ids 2)" using schedule_of_thread_ids[of 2] by simp
  obtain pos' where p: "for_each (kernUpdatePos f32 (int 2) (1 / 2) ?vel) (thread_ids 2) ?pos = Some pos'"
      "length pos' = 2"
    and ax: "\<And>i ax. i < 2 \<Longrightarrow> ax \<in> {vx, vy, vz} \<Longrightarrow>
           ax (pos' ! i) = (let c = fadd f32 (ax (?pos ! i)) (fmul f32 (ax (?vel ! i)) (1 / 2))
                            in if c > scene_scale then - scene_scale
                               else if c < - scene_scale then scene_scale else c)"
    using position_wrap[OF s, of ?pos ?vel f32 "1 / 2"] by auto
  have m: "rnd32 (- 2) = - 2" "rnd32 (- 101) = - 101"
    using rnd32_uminus[of 2] rnd32_uminus[of 101] by (simp_all add: rnd32_small)
  have h: "(1::real) / 2 ^ 19 * (1 / 2) = 1 / 1048576" by simp
  have "vx (pos' ! 0) = - 100" "vy (pos' ! 0) = 100" "vz (pos' ! 0) = 5"
    using ax[of 0 vx] ax[of 0 vy] ax[of 0 vz]
    by (simp_all add: scene_scale_def f32_ops rnd32_small m)
  then have a: "pos' ! 0 = Vec3 (- 100) 100 5" by (cases "pos' ! 0") simp
  have "vx (pos' ! 1) = 100" "vy (pos' ! 1) = 0" "vz (pos' ! 1) = 0"
    using ax[of 1 vx] ax[of 1 vy] ax[of 1 vz]
    by (simp_all add: scene_scale_def f32_ops rnd32_small rnd32_absorb)
  then have b: "pos' ! 1 = Vec3 100 0 0" by (cases "pos' ! 1") simp
  show ?thesis using p s a b by auto
qed

text \<open>
  C6 as stated fails: a coordinate that lands at \<open>scene_scale + 1\<close> reappears at
  \<open>-scene_scale\<close>, not at \<open>-scene_scale + 1\<close>.
\<close>

theorem position_wrap_counterexample:
  "for_each (kernUpdatePos f32 1 1 [Vec3 1 0 0]) (thread_ids 1) [Vec3 scene_scale 0 0]
     = Some [Vec3 (- scene_scale) 0 0]
   \<and> for_each (kernUpdatePos f32 1 1 [Vec3 1 0 0]) (thread_ids 1) [Vec3 scene_scale 0 0]
     \<noteq> Some [Vec3 (- scene_scale + 1) 0 0]"
proof -
  have "for_each (kernUpdatePos f32 (int 1) 1 [Vec3 1 0 0]) (thread_ids 1) [Vec3 scene_scale 0 0]
     = Some (map (\<lambda>i. integrate f32 1 ([Vec3 scene_scale 0 0] ! i) ([Vec3 1 0 0] ! i)) [0 ..< 1])"
    by (rule kernUpdatePos_launch) (simp_all add: schedule_of_thread_ids)
  then show ?thesis
    by (simp add: integrate_def wrap_axis_def scene_scale_def vadd_def vmul_def f32_ops rnd32_small)
qed

text \<open>
  C9, as the code has it. If the runtime refuses one of the nine buffers of \<^verbatim>\<open>initSimulation\<close>,
  the \<open>k\<close>-th say, with the runtime's error clear at entry, the process prints the source line,
  a message naming the refused buffer and the runtime's error string, and exits. The report does
  not depend on the requested size, and the \<open>k\<close> buffers acquired before are still held when
  the process exits: nothing frees them.
\<close>

theorem init_allocation_failure:
  assumes "last_error g = cudaSuccess" "k < 9"
    "\<forall>a\<in>set (take k (init_allocations N)). malloc_ok e (fst a) (snd a)"
    "\<not> malloc_ok e (fst (init_allocations N ! k)) (snd (init_allocations N ! k))"
  shows "\<exists>g'. initSimulation e N g = Inl g'
     \<and> allocations g' = allocations g @ take k (init_allocations N)
     \<and> stderr g' = stderr g @ init_failure_reports ! k"
  using assms by (rule init_failure)

theorem init_allocation_failure_witness:
  "last_error process_start = cudaSuccess \<and> (2::nat) < 9
   \<and> malloc_ok (env_refusing ''dev_vel2'') ''dev_pos'' 5000
   \<and> malloc_ok (env_refusing ''dev_vel2'') ''dev_vel1'' 5000
   \<and> \<not> malloc_ok (env_refusing ''dev_vel2'') ''dev_vel2'' 5000
   \<and> (\<exists>g'. initSimulation (env_refusing ''dev_vel2'') 5000 process_start = Inl g'
        \<and> allocations g' = [(''dev_pos'', 5000), (''dev_vel1'', 5000)]
        \<and> stderr g' = ''Line 175: Cuda error: cudaMalloc dev_vel2 failed!: out of memory.'' @ [CHR 0x0A])"
proof -
  have h1: "last_error process_start = cudaSuccess" by (simp add: process_start_def)
  have h2: "(2::nat) < 9" by simp
  have h3: "\<forall>a\<in>set (take 2 (init_allocations 5000)). malloc_ok (env_refusing ''dev_vel2'') (fst a) (snd a)"
    by (simp add: init_allocations_def env_refusing_def env_ok_def numeral_2_eq_2)
  have h4: "\<not> malloc_ok (env_refusing ''dev_vel2'') (fst (init_allocations 5000 ! 2)) (snd (init_allocations 5000 ! 2))"
    by (simp add: init_allocations_def env_refusing_def env_ok_def numeral_2_eq_2)
  have "\<exists>g'. initSimulation (env_refusing ''dev_vel2'') 5000 process_start = Inl g'
     \<and> allocations g' = allocations process_start @ take 2 (init_allocations 5000)
     \<and> stderr g' = stderr process_start @ init_failure_reports ! 2"
    using init_allocation_failure[OF h1 h2 h3 h4] .
  then have "\<exists>g'. initSimulation (env_refusing ''dev_vel2'') 5000 process_start = Inl g'
        \<and> allocations g' = [(''dev_pos'', 5000), (''dev_vel1'', 5000)]
        \<and> stderr g' = ''Line 175: Cuda error: cudaMalloc dev_vel2 failed!: out of memory.'' @ [CHR 0x0A]"
    by (simp add: process_start_def init_allocations_def init_failure_reports_def numeral_2_eq_2)
  moreover have "malloc_ok (env_refusing ''dev_vel2'') ''dev_pos'' 5000"
    "malloc_ok (env_refusing ''dev_vel2'') ''dev_vel1'' 5000"
    "\<not> malloc_ok (env_refusing ''dev_vel2'') ''dev_vel2'' 5000"
    by (simp_all add: env_refusing_def env_ok_def)
  ultimately show ?thesis using h1 h2 by blast
qed

text \<open>
  C9 as stated fails: when the sixth allocation is refused for 5000 boids, the five buffers
  acquired before it are still allocated at exit, and the report names no size.
\<close>

theorem init_allocation_failure_counterexample:
  "isl (initSimulation (env_refusing ''dev_gridCellStartIndices'') 5000 process_start)
   \<and> allocations (projl (initSimulation (env_refusing ''dev_gridCellStartIndices'') 5000 process_start))
       = [(''dev_pos'', 5000), (''dev_vel1'', 5000), (''dev_vel2'', 5000),
          (''dev_particleArrayIndices'', 5000), (''dev_particleGridIndices'', 5000)]
   \<and> stderr (projl (initSimulation (env_refusing ''dev_gridCellStartIndices'') 5000 process_start))
       = ''Line 196: Cuda error: cudaMallocdev_gridCellStartIndicesfailed!: out of memory.'' @ [CHR 0x0A]"
proof -
  have h1: "last_error process_start = cudaSuccess" by (simp add: process_start_def)
  have h3: "\<forall>a\<in>set (take 5 (init_allocations 5000)).
      malloc_ok (env_refusing ''dev_gridCellStartIndices'') (fst a) (snd a)"
    by (simp add: init_allocations_def env_refusing_def env_ok_def)
  have h4: "\<not> malloc_ok (env_refusing ''dev_gridCellStartIndices'') (fst (init_allocations 5000 ! 5))
      (snd (init_allocations 5000 ! 5))"
    by (simp add: init_allocations_def env_refusing_def env_ok_def)
  have "\<exists>g'. initSimulation (env_refusing ''dev_gridCellStartIndices'') 5000 process_start = Inl g'
     \<and> allocations g' = allocations process_start @ take 5 (init_allocations 5000)
     \<and> stderr g' = stderr process_start @ init_failure_reports ! 5"
    by (rule init_failure[OF h1 _ h3 h4]) simp
  then obtain g' where g': "initSimulation (env_refusing ''dev_gridCellStartIndices'') 5000 process_start = Inl g'"
     "allocations g' = allocations process_start @ take 5 (init_allocations 5000)"
     "stderr g' = stderr process_start @ init_failure_reports ! 5"
    by blast
  show ?thesis unfolding g'(1) using g'(2,3)
    by (simp add: process_start_def init_allocations_def init_failure_reports_def)
qed

text \<open>
  C10. A call of \<^verbatim>\<open>initSimulation\<close> that returns has subtracted \<open>h = halfSideCount \<times> cellWidth\<close>
  from each coordinate of \<^verbatim>\<open>gridMinimum\<close> as it was at entry; it does not assign it. So
  \<^verbatim>\<open>gridMinimum\<close> is \<open>(-h, -h, -h)\<close> afterwards exactly when it was zero at entry, and a
  second call in the same process moves it down by \<open>h\<close> again.
\<close>

theorem init_gridMinimum_accumulates:
  "(initSimulation e N g = Inr g' \<longrightarrow>
      (let h = real_of_int (\<lfloor>scene_scale / gridCellWidth g'\<rfloor> + 1) * gridCellWidth g'
       in gridMinimum g' = gridMinimum g - Vec3 h h h
          \<and> (gridMinimum g' = Vec3 (- h) (- h) (- h) \<longleftrightarrow> gridMinimum g = Vec3 0 0 0)))
   \<and> (initSimulation e N g = Inr g' \<and> initSimulation e2 N2 g' = Inr g'' \<longrightarrow>
      (let h = real_of_int (\<lfloor>scene_scale / gridCellWidth g''\<rfloor> + 1) * gridCellWidth g''
       in gridMinimum g'' = gridMinimum g' - Vec3 h h h
          \<and> gridMinimum g'' = gridMinimum g - Vec3 (2 * h) (2 * h) (2 * h)
          \<and> vx (gridMinimum g'') < vx (gridMinimum g')
          \<and> vy (gridMinimum g'') < vy (gridMinimum g')
          \<and> vz (gridMinimum g'') < vz (gridMinimum g')))"
proof (intro conjI impI)
  assume a: "initSimulation e N g = Inr g'"
  note v = initSimulation_grid[OF a]
  show "let h = real_of_int (\<lfloor>scene_scale / gridCellWidth g'\<rfloor> + 1) * gridCellWidth g'
       in gridMinimum g' = gridMinimum g - Vec3 h h h
          \<and> (gridMinimum g' = Vec3 (- h) (- h) (- h) \<longleftrightarrow> gridMinimum g = Vec3 0 0 0)"
    unfolding Let_def half_grid_width[OF v(1)] using v(5)
    by (cases "gridMinimum g") (auto simp: minus_tvec3_def)
next
  assume a: "initSimulation e N g = Inr g' \<and> initSimulation e2 N2 g' = Inr g''"
  note v = initSimulation_grid[OF a[THEN conjunct1]]
  note w = initSimulation_grid[OF a[THEN conjunct2]]
  show "let h = real_of_int (\<lfloor>scene_scale / gridCellWidth g''\<rfloor> + 1) * gridCellWidth g''
       in gridMinimum g'' = gridMinimum g' - Vec3 h h h
          \<and> gridMinimum g'' = gridMinimum g - Vec3 (2 * h) (2 * h) (2 * h)
          \<and> vx (gridMinimum g'') < vx (gridMinimum g')
          \<and> vy (gridMinimum g'') < vy (gridMinimum g')
          \<and> vz (gridMinimum g'') < vz (gridMinimum g')"
    unfolding Let_def half_grid_width[OF w(1)] using v(5) w(5)
    by (cases "gridMinimum g") (auto simp: minus_tvec3_def)
qed

theorem init_gridMinimum_accumulates_witness:
  "\<exists>g' g''. initSimulation env_ok 5000 process_start = Inr g' \<and> initSimulation env_ok 5000 g' = Inr g''
     \<and> gridMinimum process_start = Vec3 0 0 0
     \<and> gridMinimum g' = Vec3 (- 110) (- 110) (- 110)
     \<and> gridMinimum g'' = Vec3 (- 220) (- 220) (- 220)"
proof -
  have h1: "last_error process_start = cudaSuccess" by (simp add: process_start_def)
  obtain g' where g': "initSimulation env_ok 5000 process_start = Inr g'" "last_error g' = cudaSuccess"
    using init_success[OF h1 env_ok_grants, of 5000] by blast
  obtain g'' where g'': "initSimulation env_ok 5000 g' = Inr g''"
    using init_success[OF g'(2) env_ok_grants, of 5000] by blast
  note v = initSimulation_grid[OF g'(1)]
  note w = initSimulation_grid[OF g''(1)]
  have z: "gridMinimum process_start = Vec3 0 0 0" by (simp add: process_start_def)
  have a: "gridMinimum g' = gridMinimum process_start - Vec3 110 110 110"
    using init_gridMinimum_accumulates[of env_ok 5000 process_start g' env_ok 5000 g'',
        THEN conjunct1, rule_format, OF g'(1)]
    unfolding Let_def half_grid_width[OF v(1)] by (rule conjunct1)
  have b: "gridMinimum g'' = gridMinimum g' - Vec3 110 110 110"
    using init_gridMinimum_accumulates[of env_ok 5000 process_start g' env_ok 5000 g'',
        THEN conjunct2, rule_format, OF conjI[OF g'(1) g'']]
    unfolding Let_def half_grid_width[OF w(1)] by (rule conjunct1)
  have "gridMinimum g' = Vec3 (- 110) (- 110) (- 110)" unfolding a z by (simp add: minus_tvec3_def)
  moreover from this have "gridMinimum g'' = Vec3 (- 220) (- 220) (- 220)"
    unfolding b by (simp add: minus_tvec3_def)
  ultimately show ?thesis using g'(1) g'' z by blast
qed

text \<open>
  C7 fails in the code after a second initialisation in the same process. \<^verbatim>\<open>initSimulation\<close>
  subtracts from \<^verbatim>\<open>gridMinimum\<close> where it assigns the other grid parameters, so the second call
  leaves \<open>gridMinimum = -220\<close> on each axis with \<open>sideCount = 22\<close>. The corner \<open>(100, 100, 100)\<close>
  of the world cube then has cell coordinate 32 on each axis, outside \<open>[0, 22)\<close>, and the assertion
  of \<^verbatim>\<open>kernComputeIndices\<close> on the flattened index fires. The run is in binary32.
\<close>

theorem grid_geometry_second_init:
  "\<not> isl (initSimulation env_ok 5000 process_start)
   \<and> \<not> isl (initSimulation env_ok 5000 (projr (initSimulation env_ok 5000 process_start)))
   \<and> gridMinimum (projr (initSimulation env_ok 5000 (projr (initSimulation env_ok 5000 process_start))))
       = Vec3 (- 220) (- 220) (- 220)
   \<and> gridSideCount (projr (initSimulation env_ok 5000 (projr (initSimulation env_ok 5000 process_start))))
       = 22
   \<and> gridInverseCellWidth (projr (initSimulation env_ok 5000 (projr (initSimulation env_ok 5000 process_start))))
       = rnd32 (1 / 10)
   \<and> in_world (Vec3 100 100 100)
   \<and> getGridIndex f32 (Vec3 100 100 100) (rnd32 (1 / 10)) (Vec3 (- 220) (- 220) (- 220))
       = Some (Vec3 32 32 32)
   \<and> kernComputeIndices f32 1 22 (Vec3 (- 220) (- 220) (- 220)) (rnd32 (1 / 10)) [Vec3 100 100 100] 0
         ([0], [0])
       = None"
proof -
  have h1: "last_error process_start = cudaSuccess" by (simp add: process_start_def)
  obtain g' where g': "initSimulation env_ok 5000 process_start = Inr g'" "last_error g' = cudaSuccess"
    using init_success[OF h1 env_ok_grants, of 5000] by blast
  obtain g'' where g'': "initSimulation env_ok 5000 g' = Inr g''"
    using init_success[OF g'(2) env_ok_grants, of 5000] by blast
  note v = initSimulation_grid[OF g'(1)]
  note w = initSimulation_grid[OF g'']
  have m: "gridMinimum g'' = Vec3 (- 220) (- 220) (- 220)"
    using v(5) w(5) by (simp add: process_start_def minus_tvec3_def)
  have gi: "getGridIndex f32 (Vec3 100 100 100) (rnd32 (1 / 10)) (Vec3 (- 220) (- 220) (- 220))
       = Some (Vec3 32 32 32)"
    by (simp add: getGridIndex_def assert_that_def vsub_def vmul_def f32_ops rnd32_320 cell_of_corner)
  have k: "kernComputeIndices f32 1 22 (Vec3 (- 220) (- 220) (- 220)) (rnd32 (1 / 10)) [Vec3 100 100 100] 0
         ([0], [0]) = None"
    by (simp add: kernComputeIndices_def rd_def wr_def gi gridIndex3Dto1D_def assert_that_def)
  have iw: "in_world (Vec3 100 100 100)" by (simp add: in_world_def scene_scale_def)
  show ?thesis unfolding g'(1) sum.sel g'' using m w(2,4) gi k iw by simp
qed




text \<open>
  C3 fails in the code. \<^verbatim>\<open>genNeighborCells\<close> compares the boid's grid-local coordinate with
  \<^verbatim>\<open>grid_pos * cellWidth\<close>, which is the lower corner of the home cell, not its centre (the
  half cell width is missing). Boid 0 of the scenario has the local coordinate 22 on each axis,
  in the lower half of the cell \<open>[20, 30)\<close> whose centre is 25, and is given the upper neighbour
  3 on each axis. Boid 1 is at distance 2.5, below the three radii, in the cell \<open>(1, 2, 2)\<close>,
  which the 27-cell search visits and the 8-cell search does not. For boid 0 the 8-cell kernel
  stores the velocity \<open>(0, 0, 0)\<close>; the 27-cell kernel and the brute-force kernel store
  \<open>(7549747 / 2\<^sup>2\<^sup>5, 0, 0)\<close>. The cell width 10 is twice the largest radius.
\<close>

theorem eight_cells_miss_neighbor:
  "in_world (Vec3 (- 88) (- 88) (- 88)) \<and> in_world (Vec3 (- (181 / 2)) (- 88) (- 88))
   \<and> getGridIndex f32 (Vec3 (- 88) (- 88) (- 88)) (rnd32 (1 / 10)) (Vec3 (- 110) (- 110) (- 110))
       = Some (Vec3 2 2 2)
   \<and> vsub f32 (Vec3 (- 88) (- 88) (- 88)) (Vec3 (- 110) (- 110) (- 110)) = Vec3 22 22 22
   \<and> genNeighborCells f32 (Vec3 (- 88) (- 88) (- 88)) (Vec3 2 2 2) (Vec3 (- 110) (- 110) (- 110)) 10
       = [Vec3 2 2 2, Vec3 3 2 2, Vec3 2 3 2, Vec3 3 3 2, Vec3 2 2 3, Vec3 3 2 3, Vec3 2 3 3, Vec3 3 3 3]
   \<and> getGridIndex f32 (Vec3 (- (181 / 2)) (- 88) (- 88)) (rnd32 (1 / 10)) (Vec3 (- 110) (- 110) (- 110))
       = Some (Vec3 1 2 2)
   \<and> Vec3 1 2 2 \<in> set (neighborCells27 (Vec3 2 2 2))
   \<and> distance f32 (Vec3 (- (181 / 2)) (- 88) (- 88)) (Vec3 (- 88) (- 88) (- 88)) = 5 / 2
   \<and> 5 / 2 < rule2Distance \<and> rule2Distance < rule1Distance \<and> rule1Distance = rule3Distance
   \<and> kernUpdateVelNeighborSearchScattered f32 True 2 22 (Vec3 (- 110) (- 110) (- 110)) (rnd32 (1 / 10)) 10
        ((replicate 10648 (- 1))[1013 := 0, 1014 := 1]) ((replicate 10648 (- 1))[1013 := 1, 1014 := 2])
        [1, 0] [Vec3 (- 88) (- 88) (- 88), Vec3 (- (181 / 2)) (- 88) (- 88)] [Vec3 0 0 0, Vec3 0 0 0]
        0 [Vec3 1 1 1, Vec3 1 1 1]
       = Some [Vec3 0 0 0, Vec3 1 1 1]
   \<and> kernUpdateVelNeighborSearchScattered f32 False 2 22 (Vec3 (- 110) (- 110) (- 110)) (rnd32 (1 / 10)) 10
        ((replicate 10648 (- 1))[1013 := 0, 1014 := 1]) ((replicate 10648 (- 1))[1013 := 1, 1014 := 2])
        [1, 0] [Vec3 (- 88) (- 88) (- 88), Vec3 (- (181 / 2)) (- 88) (- 88)] [Vec3 0 0 0, Vec3 0 0 0]
        0 [Vec3 1 1 1, Vec3 1 1 1]
       = Some [Vec3 (7549747 / 33554432) 0 0, Vec3 1 1 1]
   \<and> kernUpdateVelocityBruteForce f32 2 [Vec3 (- 88) (- 88) (- 88), Vec3 (- (181 / 2)) (- 88) (- 88)]
        [Vec3 0 0 0, Vec3 0 0 0] 0 [Vec3 1 1 1, Vec3 1 1 1]
       = Some [Vec3 (7549747 / 33554432) 0 0, Vec3 1 1 1]"
proof -
  have w: "in_world (Vec3 (- 88) (- 88) (- 88))" "in_world (Vec3 (- (181 / 2)) (- 88) (- 88))"
    by (simp_all add: in_world_def scene_scale_def)
  have l: "vsub f32 (Vec3 (- 88) (- 88) (- 88)) (Vec3 (- 110) (- 110) (- 110)) = Vec3 22 22 22"
    by (simp add: vsub_def f32_eval)
  have m: "Vec3 1 2 2 \<in> set (neighborCells27 (Vec3 2 2 2))"
    by (simp add: neighborCells27_def plus_tvec3_def)
  have r: "5 / 2 < rule2Distance" "rule2Distance < rule1Distance" "rule1Distance = rule3Distance"
    by (simp_all add: rule1Distance_def rule2Distance_def rule3Distance_def)
  show ?thesis
    using w l m r lower_half_home lower_half_cells lower_half_other lower_half_distance
      lower_half_grid8 lower_half_grid27 lower_half_brute
    by (intro conjI)
qed

text \<open>
  C4 fails in the code. The two grid kernels test the flattened index of a candidate cell,
  \<^verbatim>\<open>grid_index >= 0 && grid_index < num_grids\<close>, not its three coordinates. A boid that the wrap of
  \<^verbatim>\<open>kernUpdatePos\<close> has put at \<open>x = 100\<close> is in the cell \<open>(21, 11, 11)\<close> of the \<open>22\<^sup>3\<close> grid
  (binary32); the 27-cell search visits \<open>(22, 11, 11)\<close>, which is outside \<open>[0, 22)\<close> on the \<open>x\<close> axis
  and has the flattened index 5588 of the cell \<open>(0, 12, 11)\<close> on the opposite face. For every
  memory state the visit of \<open>(22, 11, 11)\<close> is the visit of \<open>(0, 12, 11)\<close>: the range of that cell
  is read and its boids are the candidates. With empty range tables the visit is an access out of
  bounds, whereas a cell outside the grid on the \<open>z\<close> axis, such as \<open>(21, 11, 22)\<close>, is skipped.
\<close>

theorem out_of_grid_cell_visited:
  "in_world (Vec3 100 0 0)
   \<and> getGridIndex f32 (Vec3 100 0 0) (rnd32 (1 / 10)) (Vec3 (- 110) (- 110) (- 110))
       = Some (Vec3 21 11 11)
   \<and> Vec3 22 11 11 \<in> set (neighborCells27 (Vec3 21 11 11))
   \<and> gridIndex3Dto1D 22 11 11 22 = 5588
   \<and> gridIndex3Dto1D 0 12 11 22 = 5588
   \<and> visitCell fp 22 gridCellStartIndices gridCellEndIndices deref pos vel1 index (Vec3 22 11 11) a
       = visitCell fp 22 gridCellStartIndices gridCellEndIndices deref pos vel1 index (Vec3 0 12 11) a
   \<and> visitCell fp 22 [] [] deref pos vel1 index (Vec3 22 11 11) a = None
   \<and> visitCell fp 22 [] [] deref pos vel1 index (Vec3 21 11 22) a = Some a"
proof -
  have gi: "getGridIndex f32 (Vec3 100 0 0) (rnd32 (1 / 10)) (Vec3 (- 110) (- 110) (- 110))
       = Some (Vec3 21 11 11)"
    by (simp add: getGridIndex_def assert_that_def vsub_def vmul_def f32_ops rnd32_grid
        cell_of_upper_face cell_of_origin)
  have m: "Vec3 22 11 11 \<in> set (neighborCells27 (Vec3 21 11 11))"
    by (simp add: neighborCells27_def plus_tvec3_def)
  have v: "visitCell fp 22 gridCellStartIndices gridCellEndIndices deref pos vel1 index (Vec3 22 11 11) a
       = visitCell fp 22 gridCellStartIndices gridCellEndIndices deref pos vel1 index (Vec3 0 12 11) a"
    by (simp add: visitCell_def gridIndex3Dto1D_def)
  have r: "visitCell fp 22 [] [] deref pos vel1 index (Vec3 22 11 11) a = None"
    by (simp add: visitCell_def gridIndex3Dto1D_def rd_def)
  have s: "visitCell fp 22 [] [] deref pos vel1 index (Vec3 21 11 22) a = Some a"
    by (simp add: visitCell_def gridIndex3Dto1D_def)
  show ?thesis using gi m v r s by (simp add: in_world_def scene_scale_def gridIndex3Dto1D_def)
qed


end
